theory Spec2Isabelle
  imports Complex_Main "HOL-Library.AList" "HOL-Library.Sublist"
begin

section \<open>Python values used by pprm.py\<close>

text \<open>
  A Python \<open>str\<close> is modelled as a \<open>string\<close> holding its UTF-8 bytes. Every symbol that
  \<open>is_vowel\<close> looks for is a single ASCII character, so the first byte of a phone is one
  of them exactly when the first code point is; \<open>str.startswith\<close> on code points and
  \<open>prefix\<close> on the UTF-8 bytes agree. Python \<open>int\<close> is \<open>int\<close> (a counter that starts at
  0 and is only incremented is \<open>nat\<close>), Python \<open>float\<close> is idealised as \<open>real\<close> in the aggregator (the entropy
  calculator is also given with its IEEE rounding, see \<open>shannon_entropy_double\<close>), and a
  \<open>dict\<close> is an association list in insertion order, read with \<open>map_of\<close> and written
  with \<open>AList.update\<close> (which keeps the position of an existing key and appends a new
  one, as a Python \<open>dict\<close> does).
\<close>

datatype py_error = IndexError | KeyError | ZeroDivisionError

text \<open>\<open>xs[i]\<close>: negative indices count from the end; out of range raises.\<close>

definition py_index :: "'a list \<Rightarrow> int \<Rightarrow> py_error + 'a" where
  "py_index xs i =
     (if 0 \<le> i \<and> i < int (length xs) then Inr (xs ! nat i)
      else if i < 0 \<and> - int (length xs) \<le> i then Inr (xs ! nat (int (length xs) + i))
      else Inl IndexError)"

text \<open>\<open>d[k]\<close> read from a dict: a missing key raises.\<close>

definition dict_get :: "('k \<times> 'v) list \<Rightarrow> 'k \<Rightarrow> py_error + 'v" where
  "dict_get d k = (case map_of d k of None \<Rightarrow> Inl KeyError | Some v \<Rightarrow> Inr v)"

text \<open>\<open>a / b\<close> (true division).\<close>

definition py_truediv :: "real \<Rightarrow> real \<Rightarrow> py_error + real" where
  "py_truediv a b = (if b = 0 then Inl ZeroDivisionError else Inr (a / b))"

text \<open>Sequencing of two steps of which the first may raise.\<close>

definition and_then :: "py_error + 'a \<Rightarrow> ('a \<Rightarrow> py_error + 'b) \<Rightarrow> py_error + 'b" where
  "and_then m f = (case m of Inl e \<Rightarrow> Inl e | Inr x \<Rightarrow> f x)"

text \<open>A \<open>for\<close> loop over a list whose body may raise: the first exception ends it.\<close>

fun for_each :: "('a \<Rightarrow> 's \<Rightarrow> py_error + 's) \<Rightarrow> 'a list \<Rightarrow> 's \<Rightarrow> py_error + 's" where
  "for_each body [] s = Inr s"
| "for_each body (x # xs) s =
     (case body x s of Inl e \<Rightarrow> Inl e | Inr s' \<Rightarrow> for_each body xs s')"

section \<open>Utility functions\<close>

definition vowels :: "string list" where
  "vowels = [''a'', ''A'', ''e'', ''E'', ''i'', ''I'', ''o'', ''O'', ''u'', ''U'', ''y'', ''Y'',
             ''2'', ''9'', ''@'', ''3'', ''aI'', ''aU'', ''OY'']"

text \<open>\<open>phone[0] in vowels\<close>: \<open>phone[0]\<close> raises IndexError on the empty string.\<close>

definition is_vowel :: "string \<Rightarrow> py_error + bool" where
  "is_vowel phone =
     (case phone of [] \<Rightarrow> Inl IndexError | c # _ \<Rightarrow> Inr ([c] \<in> set vowels))"

text \<open>
  The last three front vowels are U+00F8, U+0153 and U+00E6, the last three back vowels
  U+0254, U+028A and U+0251, each written as its two UTF-8 bytes.
\<close>

definition front_vowels :: "string list" where
  "front_vowels = [''i'', ''I'', ''e'', ''E'', ''y'', ''Y'', ''2'', ''9'', ''e:'', ''i:'',
                   [CHR 0xC3, CHR 0xB8], [CHR 0xC5, CHR 0x93], [CHR 0xC3, CHR 0xA6]]"

definition is_front_vowel :: "string \<Rightarrow> bool" where
  "is_front_vowel phone = list_ex (\<lambda>vf. prefix vf phone) front_vowels"

definition back_vowels :: "string list" where
  "back_vowels = [''a'', ''A'', ''o'', ''O'', ''u'', ''U'', ''o:'', ''u:'',
                  [CHR 0xC9, CHR 0x94], [CHR 0xCA, CHR 0x8A], [CHR 0xC9, CHR 0x91]]"

definition is_back_vowel :: "string \<Rightarrow> bool" where
  "is_back_vowel phone = list_ex (\<lambda>vb. prefix vb phone) back_vowels"

text \<open>\<open>str.split\<close> with a one-character separator: the empty string gives one empty piece.\<close>

fun split_on :: "char \<Rightarrow> string \<Rightarrow> string list" where
  "split_on d [] = [[]]"
| "split_on d (c # cs) =
     (if c = d then [] # split_on d cs
      else (case split_on d cs of [] \<Rightarrow> [[c]] | t # ts \<Rightarrow> (c # t) # ts))"

definition phone_sequence :: "string \<Rightarrow> string list" where
  "phone_sequence cpsampa = filter (\<lambda>t. t \<noteq> []) (split_on (CHR ''.'') cpsampa)"

definition shannon_entropy :: "real \<Rightarrow> real \<Rightarrow> real" where
  "shannon_entropy prob1 prob2 =
     (let H0 = 0;
          H1 = (if prob1 > 0 then H0 - prob1 * log 2 prob1 else H0);
          H2 = (if prob2 > 0 then H1 - prob2 * log 2 prob2 else H1)
      in H2)"

section \<open>The entropy calculator in double precision\<close>

text \<open>
  A Python \<open>float\<close> is an IEEE 754 binary64 number: 53 significant bits, exponents down
  to -1022, subnormal numbers below. \<open>round_double\<close> is the rounding every operation ends
  with: to the nearest such number, a tie going to the one with the even significand.
  \<open>binade x\<close> is the exponent of \<open>x\<close> (subnormal numbers share the exponent -1022) and
  \<open>ulp x\<close> the distance between neighbouring doubles there. Overflow to infinity is not
  modelled: no operation overflows on the probabilities the statements are about.
\<close>

definition round_half_even :: "real \<Rightarrow> int" where
  "round_half_even y =
     (let f = \<lfloor>y\<rfloor>; r = y - of_int f
      in if r < 1 / 2 then f else if 1 / 2 < r then f + 1 else if even f then f else f + 1)"

definition binade :: "real \<Rightarrow> int" where
  "binade x = max \<lfloor>log 2 \<bar>x\<bar>\<rfloor> (- 1022)"

definition ulp :: "real \<Rightarrow> real" where
  "ulp x = 2 powr of_int (binade x - 52)"

definition round_double :: "real \<Rightarrow> real" where
  "round_double x = (if x = 0 then 0 else of_int (round_half_even (x / ulp x)) * ulp x)"

text \<open>The doubles: an integer significand of at most 53 bits and an exponent from -1074 up.\<close>

definition is_double :: "real \<Rightarrow> bool" where
  "is_double x \<longleftrightarrow> (\<exists>n k. x = of_int n * 2 powr of_int k \<and> \<bar>n\<bar> \<le> 2 ^ 53 \<and> - 1074 \<le> k)"


definition fl_sub :: "real \<Rightarrow> real \<Rightarrow> real" where
  "fl_sub x y = round_double (x - y)"

definition fl_mul :: "real \<Rightarrow> real \<Rightarrow> real" where
  "fl_mul x y = round_double (x * y)"

text \<open>
  \<open>math.log2\<close> is the C library's: it is taken as correctly rounded. The statements below
  use its values at powers of two only (where it is exact), or no value at all.
\<close>

definition math_log2 :: "real \<Rightarrow> real" where
  "math_log2 x = round_double (log 2 x)"

text \<open>
  \<open>shannon_entropy\<close> again, with the rounding of each operation written out. \<open>H = 0\<close> is
  the integer 0, so the first \<open>H -= x\<close> computes \<open>0.0 - x\<close>.
\<close>

definition shannon_entropy_double :: "real \<Rightarrow> real \<Rightarrow> real" where
  "shannon_entropy_double prob1 prob2 =
     (let H0 = 0;
          H1 = (if prob1 > 0 then fl_sub H0 (fl_mul prob1 (math_log2 prob1)) else H0);
          H2 = (if prob2 > 0 then fl_sub H1 (fl_mul prob2 (math_log2 prob2)) else H1)
      in H2)"

text \<open>The smallest positive double, \<open>5e-324\<close> in Python.\<close>

definition min_subnormal :: real where
  "min_subnormal = 2 powr (- 1074)"

section \<open>Environment classifiers\<close>

definition env_x_c :: "string list \<Rightarrow> int \<Rightarrow> py_error + string" where
  "env_x_c phones i =
     (if i = 0 then Inr ''WordInitial''
      else and_then (py_index phones (i - 1)) (\<lambda>prev_phone.
        if i = int (length phones) - 1 then
          (if is_back_vowel prev_phone then Inr ''WordFinal_AfterBackVowel''
           else Inr ''WordFinal_AfterFrontOrCons'')
        else
          (if is_back_vowel prev_phone then Inr ''Medial_AfterBackVowel''
           else Inr ''Medial_AfterFrontOrCons'')))"

definition env_s_S :: "string list \<Rightarrow> int \<Rightarrow> py_error + string" where
  "env_s_S phones i =
     (if i = 0 then
        (if length phones > 1 then
           and_then (py_index phones (i + 1)) (\<lambda>nxt.
             if nxt \<in> set [''p'', ''t''] then Inr ''WordInitial_s_plus_stop''
             else Inr ''WordInitial_s_alone'')
         else Inr ''WordInitial_s_alone'')
      else if i = int (length phones) - 1 then Inr ''WordFinal''
      else Inr ''WordMedial'')"

text \<open>\<open>is_vowel(left) and is_vowel(right)\<close> evaluates the right operand only when the left is true.\<close>

definition env_d_t :: "string list \<Rightarrow> int \<Rightarrow> py_error + string" where
  "env_d_t phones i =
     (if i = 0 then Inr ''WordInitial''
      else if i = int (length phones) - 1 then Inr ''WordFinal''
      else and_then (py_index phones (i - 1)) (\<lambda>left.
           and_then (py_index phones (i + 1)) (\<lambda>right.
           and_then (is_vowel left) (\<lambda>vl.
             if vl then
               and_then (is_vowel right) (\<lambda>vr.
                 if vr then Inr ''Intervocalic_V_V'' else Inr ''ClusterOrOther'')
             else Inr ''ClusterOrOther''))))"

section \<open>The PPRM aggregator\<close>

text \<open>One row of the data frame: the columns \<open>Word\<close>, \<open>Phono\<close> and \<open>Frequency\<close>.\<close>

record word_row =
  Word :: string
  Phono :: string
  Frequency :: int

text \<open>The three dicts that the scan of \<open>pprm_for_pair\<close> fills.\<close>

record scan_counts =
  counts_type :: "(string \<times> (string \<times> nat) list) list"
  counts_token :: "(string \<times> (string \<times> int) list) list"
  counts_type_tracker :: "(string \<times> (string \<times> string set) list) list"

definition no_counts :: scan_counts where
  "no_counts = \<lparr>counts_type = [], counts_token = [], counts_type_tracker = []\<rparr>"

text \<open>The dict display \<open>{phoneX: v, phoneY: v}\<close>: one entry when the two keys are equal.\<close>

definition pair_dict :: "string \<Rightarrow> string \<Rightarrow> 'v \<Rightarrow> (string \<times> 'v) list" where
  "pair_dict phoneX phoneY v = AList.update phoneY v (AList.update phoneX v [])"

definition ensure_env :: "string \<Rightarrow> string \<Rightarrow> string \<Rightarrow> scan_counts \<Rightarrow> scan_counts" where
  "ensure_env phoneX phoneY env s =
     (if env \<notin> set (map fst (counts_type s)) then
        s\<lparr>counts_type := AList.update env (pair_dict phoneX phoneY 0) (counts_type s),
          counts_token := AList.update env (pair_dict phoneX phoneY 0) (counts_token s),
          counts_type_tracker :=
            AList.update env (pair_dict phoneX phoneY {}) (counts_type_tracker s)\<rparr>
      else s)"

text \<open>
  The type-frequency block: \<open>counts_type[env_label][ph] += 1\<close> and the \<open>add\<close> to the
  tracker set happen only when the word is not yet in that set. The inner dict is changed
  in place, so the outer dict keeps its entry for \<open>env_label\<close> where it is.
\<close>

definition count_type :: "string \<Rightarrow> string \<Rightarrow> string \<Rightarrow> scan_counts \<Rightarrow> py_error + scan_counts" where
  "count_type env_label ph word_str s =
     and_then (dict_get (counts_type_tracker s) env_label) (\<lambda>tracker_env.
     and_then (dict_get tracker_env ph) (\<lambda>seen.
       if word_str \<notin> seen then
         and_then (dict_get (counts_type s) env_label) (\<lambda>cell.
         and_then (dict_get cell ph) (\<lambda>n.
           Inr (s\<lparr>counts_type :=
                    AList.update env_label (AList.update ph (n + 1) cell) (counts_type s),
                  counts_type_tracker :=
                    AList.update env_label (AList.update ph (insert word_str seen) tracker_env)
                      (counts_type_tracker s)\<rparr>)))
       else Inr s))"

text \<open>The token-frequency line: \<open>counts_token[env_label][ph] += freq\<close>.\<close>

definition count_token :: "string \<Rightarrow> string \<Rightarrow> int \<Rightarrow> scan_counts \<Rightarrow> py_error + scan_counts" where
  "count_token env_label ph freq s =
     and_then (dict_get (counts_token s) env_label) (\<lambda>cell.
     and_then (dict_get cell ph) (\<lambda>n.
       Inr (s\<lparr>counts_token :=
                AList.update env_label (AList.update ph (n + freq) cell) (counts_token s)\<rparr>)))"

text \<open>The body of the inner loop, for the position \<open>i\<close> holding the phone \<open>ph\<close>.\<close>

definition count_occurrence ::
  "string \<Rightarrow> string \<Rightarrow> (string list \<Rightarrow> int \<Rightarrow> py_error + string) \<Rightarrow> string \<Rightarrow> int \<Rightarrow>
   string list \<Rightarrow> nat \<times> string \<Rightarrow> scan_counts \<Rightarrow> py_error + scan_counts" where
  "count_occurrence phoneX phoneY env_function word_str freq phones ip s =
     (case ip of (i, ph) \<Rightarrow>
        if ph = phoneX \<or> ph = phoneY then
          and_then (env_function phones (int i)) (\<lambda>env_label.
          and_then (count_type env_label ph word_str (ensure_env phoneX phoneY env_label s))
            (count_token env_label ph freq))
        else Inr s)"

text \<open>The body of the outer loop, for one row.\<close>

definition scan_row ::
  "string \<Rightarrow> string \<Rightarrow> (string list \<Rightarrow> int \<Rightarrow> py_error + string) \<Rightarrow> word_row \<Rightarrow>
   scan_counts \<Rightarrow> py_error + scan_counts" where
  "scan_row phoneX phoneY env_function row s =
     (let word_str = Word row; phono_str = Phono row; freq = Frequency row;
          phones = phone_sequence phono_str
      in for_each (count_occurrence phoneX phoneY env_function word_str freq phones)
           (enumerate 0 phones) s)"

definition scan_rows ::
  "string \<Rightarrow> string \<Rightarrow> (string list \<Rightarrow> int \<Rightarrow> py_error + string) \<Rightarrow> word_row list \<Rightarrow>
   py_error + scan_counts" where
  "scan_rows phoneX phoneY env_function df =
     for_each (scan_row phoneX phoneY env_function) df no_counts"

text \<open>\<open>counts[env][phoneX] + counts[env][phoneY]\<close>.\<close>

definition pair_count ::
  "string \<Rightarrow> string \<Rightarrow> (string \<times> (string \<times> 'a::comm_monoid_add) list) list \<Rightarrow> string \<Rightarrow>
   py_error + 'a" where
  "pair_count phoneX phoneY counts env =
     and_then (dict_get counts env) (\<lambda>cell.
     and_then (dict_get cell phoneX) (\<lambda>x.
     and_then (dict_get cell phoneY) (\<lambda>y. Inr (x + y))))"

text \<open>The loops that add up \<open>total_types\<close> and \<open>total_tokens\<close>.\<close>

definition total_count ::
  "string \<Rightarrow> string \<Rightarrow> (string \<times> (string \<times> 'a::comm_monoid_add) list) list \<Rightarrow> py_error + 'a" where
  "total_count phoneX phoneY counts =
     for_each (\<lambda>env total. and_then (pair_count phoneX phoneY counts env) (\<lambda>c. Inr (total + c)))
       (map fst counts) 0"

text \<open>The four dicts that the entropy loop fills.\<close>

record env_stats =
  entropies_type :: "(string \<times> real) list"
  entropies_token :: "(string \<times> real) list"
  probs_type :: "(string \<times> real) list"
  probs_token :: "(string \<times> real) list"

definition no_stats :: env_stats where
  "no_stats = \<lparr>entropies_type = [], entropies_token = [], probs_type = [], probs_token = []\<rparr>"

definition type_stats ::
  "string \<Rightarrow> string \<Rightarrow> (string \<times> (string \<times> nat) list) list \<Rightarrow> nat \<Rightarrow> string \<Rightarrow> env_stats \<Rightarrow>
   py_error + env_stats" where
  "type_stats phoneX phoneY cty total_types env st =
     and_then (dict_get cty env) (\<lambda>cell.
     and_then (dict_get cell phoneX) (\<lambda>X_type.
     and_then (dict_get cell phoneY) (\<lambda>Y_type.
       if X_type + Y_type > 0 then
         and_then (py_truediv (real X_type) (real (X_type + Y_type))) (\<lambda>pX_type.
           let pY_type = 1 - pX_type;
               H_type = shannon_entropy pX_type pY_type
           in and_then (py_truediv (real (X_type + Y_type)) (real total_types)) (\<lambda>w.
                Inr (st\<lparr>entropies_type := AList.update env H_type (entropies_type st),
                        probs_type := AList.update env w (probs_type st)\<rparr>)))
       else Inr st)))"

definition token_stats ::
  "string \<Rightarrow> string \<Rightarrow> (string \<times> (string \<times> int) list) list \<Rightarrow> int \<Rightarrow> string \<Rightarrow> env_stats \<Rightarrow>
   py_error + env_stats" where
  "token_stats phoneX phoneY ctok total_tokens env st =
     and_then (dict_get ctok env) (\<lambda>cell.
     and_then (dict_get cell phoneX) (\<lambda>X_token.
     and_then (dict_get cell phoneY) (\<lambda>Y_token.
       if X_token + Y_token > 0 then
         and_then (py_truediv (real_of_int X_token) (real_of_int (X_token + Y_token))) (\<lambda>pX_token.
           let pY_token = 1 - pX_token;
               H_token = shannon_entropy pX_token pY_token
           in and_then (py_truediv (real_of_int (X_token + Y_token)) (real_of_int total_tokens)) (\<lambda>w.
                Inr (st\<lparr>entropies_token := AList.update env H_token (entropies_token st),
                        probs_token := AList.update env w (probs_token st)\<rparr>)))
       else Inr st)))"

text \<open>The body of the loop \<open>for env in counts_type\<close> that determines the entropies.\<close>

definition env_entropy ::
  "string \<Rightarrow> string \<Rightarrow> scan_counts \<Rightarrow> nat \<Rightarrow> int \<Rightarrow> string \<Rightarrow> env_stats \<Rightarrow> py_error + env_stats" where
  "env_entropy phoneX phoneY s total_types total_tokens env st =
     and_then (type_stats phoneX phoneY (counts_type s) total_types env st)
       (token_stats phoneX phoneY (counts_token s) total_tokens env)"

text \<open>The loop \<open>for env in env_entropies: overall += env_probs[env] * env_entropies[env]\<close>.\<close>

definition overall_entropy :: "(string \<times> real) list \<Rightarrow> (string \<times> real) list \<Rightarrow> py_error + real" where
  "overall_entropy env_probs env_entropies =
     for_each (\<lambda>env overall.
         and_then (dict_get env_probs env) (\<lambda>p.
         and_then (dict_get env_entropies env) (\<lambda>h. Inr (overall + p * h))))
       (map fst env_entropies) 0"

record pair_result =
  pair :: string
  type_entropy :: real
  token_entropy :: real
  env_type_counts :: "(string \<times> (string \<times> nat) list) list"
  env_token_counts :: "(string \<times> (string \<times> int) list) list"
  env_type_entropies :: "(string \<times> real) list"
  env_token_entropies :: "(string \<times> real) list"
  env_type_probs :: "(string \<times> real) list"
  env_token_probs :: "(string \<times> real) list"

definition pprm_for_pair ::
  "word_row list \<Rightarrow> string \<Rightarrow> string \<Rightarrow> (string list \<Rightarrow> int \<Rightarrow> py_error + string) \<Rightarrow>
   py_error + pair_result" where
  "pprm_for_pair df phoneX phoneY env_function =
     and_then (scan_rows phoneX phoneY env_function df) (\<lambda>s.
     and_then (total_count phoneX phoneY (counts_type s)) (\<lambda>total_types.
     and_then (total_count phoneX phoneY (counts_token s)) (\<lambda>total_tokens.
     and_then (for_each (env_entropy phoneX phoneY s total_types total_tokens)
                 (map fst (counts_type s)) no_stats) (\<lambda>st.
     and_then (overall_entropy (probs_type st) (entropies_type st)) (\<lambda>overall_entropy_type.
     and_then (overall_entropy (probs_token st) (entropies_token st)) (\<lambda>overall_entropy_token.
       Inr \<lparr>pair = ''['' @ phoneX @ '']~['' @ phoneY @ '']'',
            type_entropy = overall_entropy_type,
            token_entropy = overall_entropy_token,
            env_type_counts = counts_type s,
            env_token_counts = counts_token s,
            env_type_entropies = entropies_type st,
            env_token_entropies = entropies_token st,
            env_type_probs = probs_type st,
            env_token_probs = probs_token st\<rparr>))))))"

section \<open>Reading the dicts\<close>

text \<open>
  \<open>peek d e p\<close> is the entry \<open>d[e][p]\<close> of a nested dict when it exists. \<open>cell_value\<close>
  reads a count and gives 0 for an entry that does not exist; \<open>seen_words\<close> reads a tracker
  set and gives the empty set. A new environment starts with counts 0 and empty sets, so
  these readings do not change when \<open>ensure_env\<close> creates an environment.
\<close>

definition peek :: "('e \<times> ('p \<times> 'v) list) list \<Rightarrow> 'e \<Rightarrow> 'p \<Rightarrow> 'v option" where
  "peek d e p = (case map_of d e of None \<Rightarrow> None | Some c \<Rightarrow> map_of c p)"

definition cell_value :: "('e \<times> ('p \<times> 'v::zero) list) list \<Rightarrow> 'e \<Rightarrow> 'p \<Rightarrow> 'v" where
  "cell_value d e p = (case peek d e p of None \<Rightarrow> 0 | Some v \<Rightarrow> v)"

definition type_count :: "scan_counts \<Rightarrow> string \<Rightarrow> string \<Rightarrow> nat" where
  "type_count s e p = cell_value (counts_type s) e p"

definition token_count :: "scan_counts \<Rightarrow> string \<Rightarrow> string \<Rightarrow> int" where
  "token_count s e p = cell_value (counts_token s) e p"

definition seen_words :: "scan_counts \<Rightarrow> string \<Rightarrow> string \<Rightarrow> string set" where
  "seen_words s e p = (case peek (counts_type_tracker s) e p of None \<Rightarrow> {} | Some ws \<Rightarrow> ws)"

text \<open>
  The three dicts of the scan have the same keys in the same order, without repetition;
  \<open>ensure_env\<close> tests only \<open>counts_type\<close> and relies on this.
\<close>

definition same_keys :: "scan_counts \<Rightarrow> bool" where
  "same_keys s \<longleftrightarrow>
     map fst (counts_token s) = map fst (counts_type s) \<and>
     map fst (counts_type_tracker s) = map fst (counts_type s) \<and>
     distinct (map fst (counts_type s))"

text \<open>
  The type count of every cell is the size of its tracker set, and every environment that
  exists has a positive type count for one of the two phones.
\<close>

definition tidy :: "string \<Rightarrow> string \<Rightarrow> scan_counts \<Rightarrow> bool" where
  "tidy X Y s \<longleftrightarrow>
     same_keys s \<and>
     (\<forall>e p. finite (seen_words s e p) \<and> type_count s e p = card (seen_words s e p)) \<and>
     (\<forall>e \<in> fst ` set (counts_type s). 0 < type_count s e X \<or> 0 < type_count s e Y)"

definition tokens_nonneg :: "scan_counts \<Rightarrow> bool" where
  "tokens_nonneg s \<longleftrightarrow> same_keys s \<and> (\<forall>e p. 0 \<le> token_count s e p)"

definition tokens_pos :: "string \<Rightarrow> string \<Rightarrow> scan_counts \<Rightarrow> bool" where
  "tokens_pos X Y s \<longleftrightarrow>
     tokens_nonneg s \<and>
     (\<forall>e \<in> fst ` set (counts_token s). 0 < token_count s e X \<or> 0 < token_count s e Y)"

text \<open>
  \<open>hits env_function row env ph\<close> is the number of positions of the row's phone sequence
  that hold the phone \<open>ph\<close> and that the classifier puts in the environment \<open>env\<close>.
\<close>

definition hits ::
  "(string list \<Rightarrow> int \<Rightarrow> py_error + string) \<Rightarrow> word_row \<Rightarrow> string \<Rightarrow> string \<Rightarrow> nat" where
  "hits env_function row env ph =
     length (filter (\<lambda>(i, q). q = ph \<and> env_function (phone_sequence (Phono row)) (int i) = Inr env)
               (enumerate 0 (phone_sequence (Phono row))))"

section \<open>Data sets of the scenarios\<close>

definition haben_sagen_rows :: "word_row list" where
  "haben_sagen_rows =
     [\<lparr>Word = ''haben'', Phono = ''h.a.b.@.n'', Frequency = 100\<rparr>,
      \<lparr>Word = ''sagen'', Phono = ''z.a.g.@.n'', Frequency = 50\<rparr>]"

definition ich_rows :: "word_row list" where
  "ich_rows = [\<lparr>Word = ''ich'', Phono = ''I.C'', Frequency = 10\<rparr>]"

definition ich_zero_rows :: "word_row list" where
  "ich_zero_rows = [\<lparr>Word = ''ich'', Phono = ''I.C'', Frequency = 0\<rparr>]"

definition ich_ach_rows :: "word_row list" where
  "ich_ach_rows =
     [\<lparr>Word = ''ich'', Phono = ''I.C'', Frequency = 10\<rparr>,
      \<lparr>Word = ''ach'', Phono = ''a.x'', Frequency = 30\<rparr>]"

definition adadada_rows :: "word_row list" where
  "adadada_rows = [\<lparr>Word = ''adadada'', Phono = ''a.d.a.d.a.d.a'', Frequency = 7\<rparr>]"

definition ich_ach_result :: pair_result where
  "ich_ach_result =
     \<lparr>pair = ''[x]~[C]'', type_entropy = 0, token_entropy = 0,
       env_type_counts = [(''WordFinal_AfterFrontOrCons'', [(''x'', 0), (''C'', 1)]),
                          (''WordFinal_AfterBackVowel'', [(''x'', 1), (''C'', 0)])],
       env_token_counts = [(''WordFinal_AfterFrontOrCons'', [(''x'', 0), (''C'', 10)]),
                           (''WordFinal_AfterBackVowel'', [(''x'', 30), (''C'', 0)])],
       env_type_entropies = [(''WordFinal_AfterFrontOrCons'', 0), (''WordFinal_AfterBackVowel'', 0)],
       env_token_entropies = [(''WordFinal_AfterFrontOrCons'', 0), (''WordFinal_AfterBackVowel'', 0)],
       env_type_probs = [(''WordFinal_AfterFrontOrCons'', 1 / 2), (''WordFinal_AfterBackVowel'', 1 / 2)],
       env_token_probs = [(''WordFinal_AfterFrontOrCons'', 1 / 4), (''WordFinal_AfterBackVowel'', 3 / 4)]\<rparr>"

definition adadada_result :: pair_result where
  "adadada_result =
     \<lparr>pair = ''[d]~[t]'', type_entropy = 0, token_entropy = 0,
       env_type_counts = [(''Intervocalic_V_V'', [(''d'', 1), (''t'', 0)])],
       env_token_counts = [(''Intervocalic_V_V'', [(''d'', 21), (''t'', 0)])],
       env_type_entropies = [(''Intervocalic_V_V'', 0)],
       env_token_entropies = [(''Intervocalic_V_V'', 0)],
       env_type_probs = [(''Intervocalic_V_V'', 1)],
       env_token_probs = [(''Intervocalic_V_V'', 1)]\<rparr>"

section \<open>Steps of the scan\<close>

lemma same_keysD:
  assumes "same_keys s"
  shows "map fst (counts_token s) = map fst (counts_type s)"
    and "map fst (counts_type_tracker s) = map fst (counts_type s)"
    and "distinct (map fst (counts_type s))"
    and "distinct (map fst (counts_token s))"
    and "fst ` set (counts_token s) = fst ` set (counts_type s)"
    and "fst ` set (counts_type_tracker s) = fst ` set (counts_type s)"
proof -
  from assms show a: "map fst (counts_token s) = map fst (counts_type s)"
    and b: "map fst (counts_type_tracker s) = map fst (counts_type s)"
    and c: "distinct (map fst (counts_type s))"
    by (simp_all add: same_keys_def)
  from a c show "distinct (map fst (counts_token s))" by simp
  from a have "set (map fst (counts_token s)) = set (map fst (counts_type s))" by simp
  then show "fst ` set (counts_token s) = fst ` set (counts_type s)" by simp
  from b have "set (map fst (counts_type_tracker s)) = set (map fst (counts_type s))" by simp
  then show "fst ` set (counts_type_tracker s) = fst ` set (counts_type s)" by simp
qed

lemma and_then_Inr: "and_then m f = Inr y \<longleftrightarrow> (\<exists>x. m = Inr x \<and> f x = Inr y)"
  by (cases m) (simp_all add: and_then_def)

lemma dict_get_Inr: "dict_get d k = Inr v \<longleftrightarrow> map_of d k = Some v"
  by (simp add: dict_get_def split: option.splits)

lemma map_of_keys: "map_of d k = Some v \<Longrightarrow> k \<in> fst ` set d"
  by (metis map_of_eq_None_iff option.distinct(1))

lemma keys_update_present: "map_of d k = Some v \<Longrightarrow> map fst (AList.update k v' d) = map fst d"
  using map_of_keys [of d k v] by (simp add: update_keys)

lemma peek_Some: "map_of d e = Some c \<Longrightarrow> peek d e p = map_of c p"
  by (simp add: peek_def)

lemma peek_absent: "e \<notin> fst ` set d \<Longrightarrow> peek d e p = None"
  by (simp add: peek_def map_of_eq_None_iff [THEN iffD2])

lemma peek_update_cell:
  "map_of d e = Some c \<Longrightarrow>
   peek (AList.update e (AList.update p v c) d) e' p' =
     (if e' = e \<and> p' = p then Some v else peek d e' p')"
  by (simp add: peek_def update_conv')

lemma map_of_pair_dict:
  "map_of (pair_dict X Y v) p = (if p = X \<or> p = Y then Some v else None)"
  by (simp add: pair_dict_def update_conv')

lemma peek_new_env:
  "e \<notin> fst ` set d \<Longrightarrow>
   peek (AList.update e (pair_dict X Y v) d) e' p' =
     (if e' = e \<and> (p' = X \<or> p' = Y) then Some v else peek d e' p')"
  using peek_absent [of e d p']
  by (simp add: peek_def update_conv' map_of_pair_dict)

lemma ensure_env_reads:
  assumes "same_keys s"
  shows "type_count (ensure_env X Y env s) = type_count s"
    and "token_count (ensure_env X Y env s) = token_count s"
    and "seen_words (ensure_env X Y env s) = seen_words s"
  using same_keysD(5,6) [OF assms]
  by (auto simp: ensure_env_def fun_eq_iff type_count_def token_count_def cell_value_def
      seen_words_def peek_new_env peek_absent)

lemma ensure_env_keys:
  "fst ` set (counts_type (ensure_env X Y env s)) = insert env (fst ` set (counts_type s))"
  by (auto simp: ensure_env_def dom_update)

lemma ensure_env_same_keys: "same_keys s \<Longrightarrow> same_keys (ensure_env X Y env s)"
  by (simp add: ensure_env_def same_keys_def update_keys)

lemma count_type_effect:
  assumes "count_type env ph w s = Inr s'"
  shows "type_count s' e p =
           (if e = env \<and> p = ph \<and> w \<notin> seen_words s env ph
                  then type_count s e p + 1 else type_count s e p)"
    and "seen_words s' e p =
           (if e = env \<and> p = ph then insert w (seen_words s e p) else seen_words s e p)"
    and "token_count s' = token_count s"
    and "map fst (counts_type s') = map fst (counts_type s)"
    and "same_keys s \<Longrightarrow> same_keys s'"
proof -
  from assms obtain tr sn where
    tr: "map_of (counts_type_tracker s) env = Some tr" and sn: "map_of tr ph = Some sn" and
    rest: "(if w \<notin> sn then
         and_then (dict_get (counts_type s) env) (\<lambda>cell.
         and_then (dict_get cell ph) (\<lambda>n.
           Inr (s\<lparr>counts_type :=
                    AList.update env (AList.update ph (n + 1) cell) (counts_type s),
                  counts_type_tracker :=
                    AList.update env (AList.update ph (insert w sn) tr)
                      (counts_type_tracker s)\<rparr>)))
       else Inr s) = Inr s'"
    by (auto simp: count_type_def and_then_Inr dict_get_Inr)
  have seen: "seen_words s env ph = sn"
    by (simp add: seen_words_def peek_Some [OF tr] sn)
  show "type_count s' e p =
           (if e = env \<and> p = ph \<and> w \<notin> seen_words s env ph
                  then type_count s e p + 1 else type_count s e p)"
    using rest seen
    by (auto simp: and_then_Inr dict_get_Inr type_count_def cell_value_def peek_update_cell peek_Some
        split: if_splits)
  show "seen_words s' e p =
           (if e = env \<and> p = ph then insert w (seen_words s e p) else seen_words s e p)"
    using rest seen tr sn
    by (auto simp: and_then_Inr dict_get_Inr seen_words_def peek_update_cell peek_Some
        split: if_splits)
  show "token_count s' = token_count s"
    using rest by (auto simp: and_then_Inr dict_get_Inr token_count_def cell_value_def fun_eq_iff split: if_splits)
  show "map fst (counts_type s') = map fst (counts_type s)"
    using rest by (auto simp: and_then_Inr dict_get_Inr keys_update_present split: if_splits)
  show "same_keys s \<Longrightarrow> same_keys s'"
  proof (cases "w \<in> sn")
    case True
    with rest show "same_keys s \<Longrightarrow> same_keys s'" by simp
  next
    case False
    with rest obtain cell n where cell: "map_of (counts_type s) env = Some cell" and
      s': "s' = s\<lparr>counts_type :=
                    AList.update env (AList.update ph (n + 1) cell) (counts_type s),
                  counts_type_tracker :=
                    AList.update env (AList.update ph (insert w sn) tr)
                      (counts_type_tracker s)\<rparr>"
      by (auto simp: and_then_Inr dict_get_Inr)
    show "same_keys s \<Longrightarrow> same_keys s'"
      by (simp add: s' same_keys_def keys_update_present [OF cell]
          keys_update_present [OF tr])
  qed
qed

lemma count_token_effect:
  assumes "count_token env ph fr s = Inr s'"
  shows "token_count s' e p =
           (if e = env \<and> p = ph then token_count s e p + fr else token_count s e p)"
    and "type_count s' = type_count s"
    and "seen_words s' = seen_words s"
    and "counts_type s' = counts_type s"
    and "same_keys s \<Longrightarrow> same_keys s'"
proof -
  from assms obtain cell n where
    cell: "map_of (counts_token s) env = Some cell" and n: "map_of cell ph = Some n" and
    s': "s' = s\<lparr>counts_token :=
                AList.update env (AList.update ph (n + fr) cell) (counts_token s)\<rparr>"
    by (auto simp: count_token_def and_then_Inr dict_get_Inr)
  show "token_count s' e p =
           (if e = env \<and> p = ph then token_count s e p + fr else token_count s e p)"
    by (simp add: s' token_count_def cell_value_def peek_update_cell [OF cell] peek_Some [OF cell] n)
  show "type_count s' = type_count s" "seen_words s' = seen_words s"
    "counts_type s' = counts_type s"
    by (simp_all add: s' type_count_def cell_value_def seen_words_def fun_eq_iff)
  show "same_keys s \<Longrightarrow> same_keys s'"
    by (simp add: s' same_keys_def keys_update_present [OF cell])
qed

lemma count_occurrence_miss:
  "ph \<noteq> X \<Longrightarrow> ph \<noteq> Y \<Longrightarrow> count_occurrence X Y f w fr phones (i, ph) s = Inr s"
  by (simp add: count_occurrence_def)

lemma count_occurrence_hit:
  assumes run: "count_occurrence X Y f w fr phones (i, ph) s = Inr s'"
    and ph: "ph = X \<or> ph = Y" and keys: "same_keys s"
  shows "\<exists>env. f phones (int i) = Inr env
    \<and> (\<forall>e p. type_count s' e p =
           (if e = env \<and> p = ph \<and> w \<notin> seen_words s env ph
            then type_count s e p + 1 else type_count s e p))
    \<and> (\<forall>e p. seen_words s' e p =
           (if e = env \<and> p = ph then insert w (seen_words s e p) else seen_words s e p))
    \<and> (\<forall>e p. token_count s' e p =
           (if e = env \<and> p = ph then token_count s e p + fr else token_count s e p))
    \<and> fst ` set (counts_type s') = insert env (fst ` set (counts_type s))
    \<and> same_keys s'"
proof -
  from run ph obtain env s1 where
    env: "f phones (int i) = Inr env" and
    s1: "count_type env ph w (ensure_env X Y env s) = Inr s1" and
    s': "count_token env ph fr s1 = Inr s'"
    by (auto simp: count_occurrence_def and_then_Inr)
  note k0 = ensure_env_same_keys [OF keys, of X Y env]
  note r0 = ensure_env_reads [OF keys, of X Y env]
  note t1 = count_type_effect [OF s1]
  note t2 = count_token_effect [OF s']
  have "fst ` set (counts_type s') = set (map fst (counts_type s1))"
    by (simp add: t2(4))
  also have "\<dots> = fst ` set (counts_type (ensure_env X Y env s))"
    by (simp add: t1(4))
  finally have ks: "fst ` set (counts_type s') = insert env (fst ` set (counts_type s))"
    by (simp add: ensure_env_keys)
  have k': "same_keys s'" by (rule t2(5) [OF t1(5) [OF k0]])
  show ?thesis
  proof (intro exI [of _ env] conjI allI)
    fix e p
    show "type_count s' e p =
           (if e = env \<and> p = ph \<and> w \<notin> seen_words s env ph
            then type_count s e p + 1 else type_count s e p)"
      by (simp add: t2(2) t1(1) r0)
    show "seen_words s' e p =
           (if e = env \<and> p = ph then insert w (seen_words s e p) else seen_words s e p)"
      by (simp add: t2(3) t1(2) r0)
    show "token_count s' e p =
           (if e = env \<and> p = ph then token_count s e p + fr else token_count s e p)"
      by (simp add: t2(1) t1(3) r0)
  qed (rule env ks k')+
qed

section \<open>Invariants of the scan\<close>

lemma for_each_invariant:
  assumes "for_each body xs s = Inr s'" and "P s"
    and "\<And>x t t'. x \<in> set xs \<Longrightarrow> P t \<Longrightarrow> body x t = Inr t' \<Longrightarrow> P t'"
  shows "P s'"
  using assms
proof (induction xs arbitrary: s)
  case Nil
  then show ?case by simp
next
  case (Cons x xs)
  from Cons.prems(1) obtain t where t: "body x s = Inr t" and rest: "for_each body xs t = Inr s'"
    by (auto split: sum.splits)
  have "P t" using Cons.prems(3) [of x s t] Cons.prems(2) t by simp
  with rest show ?case
  proof (rule Cons.IH)
    fix y u u'
    assume "y \<in> set xs" "P u" "body y u = Inr u'"
    then show "P u'" using Cons.prems(3) [of y u u'] by simp
  qed
qed

lemma scan_row_invariant:
  assumes "scan_row X Y f row s = Inr s'" and "P s"
    and "\<And>i ph t t'. count_occurrence X Y f (Word row) (Frequency row)
            (phone_sequence (Phono row)) (i, ph) t = Inr t' \<Longrightarrow> P t \<Longrightarrow> P t'"
  shows "P s'"
  using assms(1) unfolding scan_row_def Let_def
  by (rule for_each_invariant [where P = P]) (use assms(2,3) in auto)

lemma scan_rows_invariant:
  assumes "scan_rows X Y f df = Inr s" and "P no_counts"
    and "\<And>row i ph t t'. row \<in> set df \<Longrightarrow>
           count_occurrence X Y f (Word row) (Frequency row)
             (phone_sequence (Phono row)) (i, ph) t = Inr t' \<Longrightarrow> P t \<Longrightarrow> P t'"
  shows "P s"
  using assms(1) unfolding scan_rows_def
proof (rule for_each_invariant [where P = P])
  show "P no_counts" by fact
next
  fix row t t'
  assume "row \<in> set df" "P t" "scan_row X Y f row t = Inr t'"
  then show "P t'"
    using assms(3) scan_row_invariant [where P = P] by blast
qed

lemma no_counts_reads [simp]:
  "type_count no_counts e p = 0" "token_count no_counts e p = 0" "seen_words no_counts e p = {}"
  "same_keys no_counts" "counts_type no_counts = []"
  by (simp_all add: no_counts_def type_count_def token_count_def cell_value_def seen_words_def peek_def same_keys_def)

lemma tidy_step:
  assumes run: "count_occurrence X Y f w fr phones (i, ph) s = Inr s'" and t: "tidy X Y s"
  shows "tidy X Y s'"
proof (cases "ph = X \<or> ph = Y")
  case False
  with run t show ?thesis by (simp add: count_occurrence_miss)
next
  case True
  from t have keys: "same_keys s" by (simp add: tidy_def)
  from count_occurrence_hit [OF run True keys] obtain env where
    ty: "\<forall>e p. type_count s' e p =
           (if e = env \<and> p = ph \<and> w \<notin> seen_words s env ph
            then type_count s e p + 1 else type_count s e p)" and
    sn: "\<forall>e p. seen_words s' e p =
           (if e = env \<and> p = ph then insert w (seen_words s e p) else seen_words s e p)" and
    ks: "fst ` set (counts_type s') = insert env (fst ` set (counts_type s))" and
    k': "same_keys s'"
    by (elim exE conjE)
  from t have fin: "\<And>e p. finite (seen_words s e p)"
    and card: "\<And>e p. type_count s e p = card (seen_words s e p)"
    by (simp_all add: tidy_def)
  from t have "\<forall>e \<in> fst ` set (counts_type s). 0 < type_count s e X \<or> 0 < type_count s e Y"
    unfolding tidy_def by (elim conjE)
  note pos = bspec [OF this]
  have c': "type_count s' e p = card (seen_words s' e p)" for e p
    by (simp add: ty sn card fin insert_absorb)
  have new: "0 < type_count s' env ph"
    by (simp add: c' sn fin card_gt_0_iff)
  have mono: "type_count s e p \<le> type_count s' e p" for e p by (simp add: ty)
  have "0 < type_count s' e X \<or> 0 < type_count s' e Y"
    if "e \<in> fst ` set (counts_type s')" for e
  proof (cases "e = env")
    case True
    with new \<open>ph = X \<or> ph = Y\<close> show ?thesis by auto
  next
    case False
    with that ks have "e \<in> fst ` set (counts_type s)" by simp
    from pos [OF this] mono [of e X] mono [of e Y] show ?thesis by linarith
  qed
  then have "\<forall>e \<in> fst ` set (counts_type s'). 0 < type_count s' e X \<or> 0 < type_count s' e Y"
    by (rule ballI)
  moreover have "\<forall>e p. finite (seen_words s' e p) \<and> type_count s' e p = card (seen_words s' e p)"
    using c' fin by (simp add: sn)
  ultimately show ?thesis
    unfolding tidy_def using k' by (intro conjI)
qed

lemma tidy_no_counts: "tidy X Y no_counts"
  by (simp add: tidy_def)

lemma scan_rows_tidy:
  assumes "scan_rows X Y f df = Inr s"
  shows "tidy X Y s"
  using assms tidy_no_counts
proof (rule scan_rows_invariant [where P = "tidy X Y"])
  fix row i ph t t'
  assume "count_occurrence X Y f (Word row) (Frequency row)
             (phone_sequence (Phono row)) (i, ph) t = Inr t'" "tidy X Y t"
  then show "tidy X Y t'" by (rule tidy_step)
qed

section \<open>What the scan counts\<close>

lemma positions_effect:
  assumes "for_each (count_occurrence X Y f w fr phones) ps s = Inr s'"
    and "same_keys s" and "p = X \<or> p = Y"
  shows "same_keys s'
    \<and> token_count s' e p =
        token_count s e p + int (length (filter (\<lambda>(i, q). q = p \<and> f phones (int i) = Inr e) ps)) * fr
    \<and> seen_words s' e p =
        (if 1 \<le> length (filter (\<lambda>(i, q). q = p \<and> f phones (int i) = Inr e) ps)
         then insert w (seen_words s e p) else seen_words s e p)"
  using assms(1,2)
proof (induction ps arbitrary: s)
  case Nil
  then show ?case by simp
next
  case (Cons x ps)
  obtain i ph where x: "x = (i, ph)" by (cases x)
  from Cons.prems(1) obtain t where
    t: "count_occurrence X Y f w fr phones (i, ph) s = Inr t" and
    rest: "for_each (count_occurrence X Y f w fr phones) ps t = Inr s'"
    by (auto simp: x split: sum.splits)
  show ?case
  proof (cases "ph = X \<or> ph = Y")
    case False
    with t have "t = s" by (simp add: count_occurrence_miss)
    with Cons.IH [OF rest] Cons.prems(2) False assms(3) show ?thesis
      by (auto simp: x)
  next
    case True
    from count_occurrence_hit [OF t True Cons.prems(2)] obtain env where
      env: "f phones (int i) = Inr env" and
      "\<forall>e p. type_count t e p =
           (if e = env \<and> p = ph \<and> w \<notin> seen_words s env ph
            then type_count s e p + 1 else type_count s e p)" and
      sn: "\<forall>e p. seen_words t e p =
           (if e = env \<and> p = ph then insert w (seen_words s e p) else seen_words s e p)" and
      tk: "\<forall>e p. token_count t e p =
           (if e = env \<and> p = ph then token_count s e p + fr else token_count s e p)" and
      "fst ` set (counts_type t) = insert env (fst ` set (counts_type s))" and
      k: "same_keys t"
      by (elim exE conjE)
    from Cons.IH [OF rest k] show ?thesis
      by (simp add: x env sn tk algebra_simps insert_commute)
  qed
qed

lemma scan_row_effect:
  assumes "scan_row X Y f row s = Inr s'" and "same_keys s" and "p = X \<or> p = Y"
  shows "same_keys s'"
    and "token_count s' e p = token_count s e p + int (hits f row e p) * Frequency row"
    and "seen_words s' e p =
        (if 1 \<le> hits f row e p then insert (Word row) (seen_words s e p) else seen_words s e p)"
  using positions_effect [OF assms(1) [unfolded scan_row_def Let_def] assms(2,3), of e]
  by (simp_all add: hits_def)

lemma rows_effect:
  assumes "for_each (scan_row X Y f) df s = Inr s'" and "same_keys s" and "p = X \<or> p = Y"
  shows "same_keys s'
    \<and> token_count s' e p = token_count s e p + (\<Sum>row\<leftarrow>df. int (hits f row e p) * Frequency row)
    \<and> seen_words s' e p = seen_words s e p \<union> {Word row | row. row \<in> set df \<and> 1 \<le> hits f row e p}"
  using assms(1,2)
proof (induction df arbitrary: s)
  case Nil
  then show ?case by simp
next
  case (Cons row df)
  from Cons.prems(1) obtain t where
    t: "scan_row X Y f row s = Inr t" and rest: "for_each (scan_row X Y f) df t = Inr s'"
    by (auto split: sum.splits)
  note eff = scan_row_effect [OF t Cons.prems(2) assms(3)]
  from Cons.IH [OF rest eff(1)] show ?case
    by (auto simp: eff(2,3))
qed

lemma scan_rows_counts:
  assumes "scan_rows X Y f df = Inr s" and p: "p = X \<or> p = Y"
  shows "type_count s e p = card {Word row | row. row \<in> set df \<and> 1 \<le> hits f row e p}"
    and "token_count s e p = (\<Sum>row\<leftarrow>df. int (hits f row e p) * Frequency row)"
proof -
  from rows_effect [OF assms(1) [unfolded scan_rows_def] _ p, of e]
  have tk: "token_count s e p = (\<Sum>row\<leftarrow>df. int (hits f row e p) * Frequency row)"
    and sn: "seen_words s e p = {Word row | row. row \<in> set df \<and> 1 \<le> hits f row e p}"
    by simp_all
  from scan_rows_tidy [OF assms(1)] have "type_count s e p = card (seen_words s e p)"
    by (simp add: tidy_def)
  then show "type_count s e p = card {Word row | row. row \<in> set df \<and> 1 \<le> hits f row e p}"
    by (simp only: sn)
  show "token_count s e p = (\<Sum>row\<leftarrow>df. int (hits f row e p) * Frequency row)" by (rule tk)
qed

lemma cell_value_read:
  "map_of d e = Some cell \<Longrightarrow> map_of cell p = Some n \<Longrightarrow> cell_value d e p = n"
  by (simp add: cell_value_def peek_def)

lemma counts_token_no_counts: "counts_token no_counts = []"
  by (simp add: no_counts_def)

lemma tokens_nonneg_step:
  assumes run: "count_occurrence X Y f w fr phones (i, ph) s = Inr s'"
    and t: "tokens_nonneg s" and fr: "0 \<le> fr"
  shows "tokens_nonneg s'"
proof (cases "ph = X \<or> ph = Y")
  case False
  with run t show ?thesis by (simp add: count_occurrence_miss)
next
  case True
  from t have keys: "same_keys s" and nn: "\<And>e p. 0 \<le> token_count s e p"
    by (simp_all add: tokens_nonneg_def)
  from count_occurrence_hit [OF run True keys] obtain env where
    tk: "\<forall>e p. token_count s' e p =
           (if e = env \<and> p = ph then token_count s e p + fr else token_count s e p)" and
    k': "same_keys s'"
    by (elim exE conjE)
  show ?thesis
    using k' nn fr by (simp add: tokens_nonneg_def tk)
qed

lemma tokens_pos_step:
  assumes run: "count_occurrence X Y f w fr phones (i, ph) s = Inr s'"
    and t: "tokens_pos X Y s" and fr: "0 < fr"
  shows "tokens_pos X Y s'"
proof (cases "ph = X \<or> ph = Y")
  case False
  with run t show ?thesis by (simp add: count_occurrence_miss)
next
  case True
  from t have t0: "tokens_nonneg s" by (simp add: tokens_pos_def)
  then have keys: "same_keys s" and nn: "\<And>e p. 0 \<le> token_count s e p"
    by (simp_all add: tokens_nonneg_def)
  from t have "\<forall>e \<in> fst ` set (counts_token s). 0 < token_count s e X \<or> 0 < token_count s e Y"
    unfolding tokens_pos_def by (elim conjE)
  note pos = bspec [OF this]
  from count_occurrence_hit [OF run True keys] obtain env where
    tk: "\<forall>e p. token_count s' e p =
           (if e = env \<and> p = ph then token_count s e p + fr else token_count s e p)" and
    ks: "fst ` set (counts_type s') = insert env (fst ` set (counts_type s))" and
    k': "same_keys s'"
    by (elim exE conjE)
  have ks': "fst ` set (counts_token s') = insert env (fst ` set (counts_token s))"
    using ks same_keysD(5) [OF k'] same_keysD(5) [OF keys] by simp
  have new: "0 < token_count s' env ph"
    using nn [of env ph] fr by (simp add: tk)
  have mono: "token_count s e p \<le> token_count s' e p" for e p
    using fr by (simp add: tk)
  have "0 < token_count s' e X \<or> 0 < token_count s' e Y"
    if "e \<in> fst ` set (counts_token s')" for e
  proof (cases "e = env")
    case True
    with new \<open>ph = X \<or> ph = Y\<close> show ?thesis by auto
  next
    case False
    with that ks' have "e \<in> fst ` set (counts_token s)" by simp
    from pos [OF this] mono [of e X] mono [of e Y] show ?thesis by linarith
  qed
  then have "\<forall>e \<in> fst ` set (counts_token s'). 0 < token_count s' e X \<or> 0 < token_count s' e Y"
    by (rule ballI)
  moreover have "tokens_nonneg s'"
    using fr by (intro tokens_nonneg_step [OF run t0]) simp
  ultimately show ?thesis
    unfolding tokens_pos_def by (intro conjI)
qed

lemma scan_rows_tokens_nonneg:
  assumes "scan_rows X Y f df = Inr s" and fr: "\<forall>row \<in> set df. 0 \<le> Frequency row"
  shows "tokens_nonneg s"
  using assms(1)
proof (rule scan_rows_invariant [where P = tokens_nonneg])
  show "tokens_nonneg no_counts" by (simp add: tokens_nonneg_def)
next
  fix row i ph t t'
  assume "row \<in> set df" "count_occurrence X Y f (Word row) (Frequency row)
             (phone_sequence (Phono row)) (i, ph) t = Inr t'" "tokens_nonneg t"
  then show "tokens_nonneg t'" using fr tokens_nonneg_step [of X Y f "Word row" "Frequency row"] by blast
qed

lemma scan_rows_tokens_pos:
  assumes "scan_rows X Y f df = Inr s" and fr: "\<forall>row \<in> set df. 0 < Frequency row"
  shows "tokens_pos X Y s"
  using assms(1)
proof (rule scan_rows_invariant [where P = "tokens_pos X Y"])
  show "tokens_pos X Y no_counts" by (simp add: tokens_pos_def tokens_nonneg_def counts_token_no_counts)
next
  fix row i ph t t'
  assume "row \<in> set df" "count_occurrence X Y f (Word row) (Frequency row)
             (phone_sequence (Phono row)) (i, ph) t = Inr t'" "tokens_pos X Y t"
  then show "tokens_pos X Y t'" using fr tokens_pos_step [of X Y f "Word row" "Frequency row"] by blast
qed

lemma positive_cell:
  assumes "(e, cell) \<in> set d" and "distinct (map fst d)"
    and "0 < cell_value d e X \<or> 0 < cell_value d e Y"
  shows "\<exists>p n. (p = X \<or> p = Y) \<and> map_of cell p = Some n \<and> (0::'a::{zero,order}) < n"
proof -
  from assms(1,2) have m: "map_of d e = Some cell" by simp
  have v: "cell_value d e p = (case map_of cell p of None \<Rightarrow> 0 | Some n \<Rightarrow> n)" for p
    by (simp add: cell_value_def peek_def m)
  from assms(3) show ?thesis
  proof
    assume "0 < cell_value d e X"
    then have "\<exists>n. map_of cell X = Some n \<and> 0 < n"
      by (cases "map_of cell X") (simp_all add: v)
    then show ?thesis by blast
  next
    assume "0 < cell_value d e Y"
    then have "\<exists>n. map_of cell Y = Some n \<and> 0 < n"
      by (cases "map_of cell Y") (simp_all add: v)
    then show ?thesis by blast
  qed
qed

lemma pprm_for_pair_scan:
  assumes "pprm_for_pair df X Y f = Inr r"
  shows "\<exists>s. scan_rows X Y f df = Inr s \<and> env_type_counts r = counts_type s \<and>
    env_token_counts r = counts_token s"
  using assms unfolding pprm_for_pair_def and_then_Inr by (elim exE conjE) auto

lemma tidy_keys: "tidy X Y s \<Longrightarrow> same_keys s"
  unfolding tidy_def by (elim conjE)

lemma tidy_positive:
  assumes "tidy X Y s" and "e \<in> fst ` set (counts_type s)"
  shows "0 < type_count s e X \<or> 0 < type_count s e Y"
proof -
  from assms(1)
  have "\<forall>e \<in> fst ` set (counts_type s). 0 < type_count s e X \<or> 0 < type_count s e Y"
    unfolding tidy_def by (elim conjE)
  from bspec [OF this assms(2)] show ?thesis .
qed

lemma tokens_pos_positive:
  assumes "tokens_pos X Y s" and "e \<in> fst ` set (counts_token s)"
  shows "0 < token_count s e X \<or> 0 < token_count s e Y"
proof -
  from assms(1)
  have "\<forall>e \<in> fst ` set (counts_token s). 0 < token_count s e X \<or> 0 < token_count s e Y"
    unfolding tokens_pos_def by (elim conjE)
  from bspec [OF this assms(2)] show ?thesis .
qed

lemma type_cells_positive:
  assumes s: "scan_rows phoneX phoneY env_function df = Inr s"
    and in_d: "(env, cell) \<in> set (counts_type s)"
  shows "\<exists>ph n. (ph = phoneX \<or> ph = phoneY) \<and> map_of cell ph = Some n \<and> 0 < n"
proof -
  note keys = tidy_keys [OF scan_rows_tidy [OF s]]
  note pos = tidy_positive [OF scan_rows_tidy [OF s]]
  show ?thesis
  proof (rule positive_cell [OF in_d])
    show "distinct (map fst (counts_type s))" using keys by (rule same_keysD)
    have "fst (env, cell) \<in> fst ` set (counts_type s)" using in_d by (rule imageI)
    then have "env \<in> fst ` set (counts_type s)" by simp
    from pos [OF this]
    show "0 < cell_value (counts_type s) env phoneX \<or> 0 < cell_value (counts_type s) env phoneY"
      by (simp add: type_count_def)
  qed
qed

lemma token_cells_positive:
  assumes s: "scan_rows phoneX phoneY env_function df = Inr s"
    and fr: "\<forall>row \<in> set df. 0 < Frequency row"
    and in_d: "(env, cell) \<in> set (counts_token s)"
  shows "\<exists>ph n. (ph = phoneX \<or> ph = phoneY) \<and> map_of cell ph = Some n \<and> 0 < n"
proof -
  note keys = tidy_keys [OF scan_rows_tidy [OF s]]
  note tpos = tokens_pos_positive [OF scan_rows_tokens_pos [OF s fr]]
  show ?thesis
  proof (rule positive_cell [OF in_d])
    show "distinct (map fst (counts_token s))" using keys by (rule same_keysD)
    have "fst (env, cell) \<in> fst ` set (counts_token s)" using in_d by (rule imageI)
    then have "env \<in> fst ` set (counts_token s)" by simp
    from tpos [OF this]
    show "0 < cell_value (counts_token s) env phoneX \<or> 0 < cell_value (counts_token s) env phoneY"
      by (simp add: token_count_def)
  qed
qed

section \<open>Totals and the entropy loop\<close>

lemma pair_count_value:
  "pair_count X Y d e = Inr c \<Longrightarrow> c = cell_value d e X + cell_value d e Y"
  by (auto simp: pair_count_def and_then_Inr dict_get_Inr cell_value_def peek_def)

lemma total_loop_value:
  "for_each (\<lambda>env total. and_then (pair_count X Y d env) (\<lambda>c. Inr (total + c))) es a = Inr n
   \<Longrightarrow> n = a + (\<Sum>e\<leftarrow>es. cell_value d e X + cell_value d e Y)"
proof (induction es arbitrary: a)
  case Nil
  then show ?case by simp
next
  case (Cons e es)
  from Cons.prems obtain c where c: "pair_count X Y d e = Inr c"
    and rest: "for_each (\<lambda>env total. and_then (pair_count X Y d env) (\<lambda>c. Inr (total + c)))
                 es (a + c) = Inr n"
    by (auto simp: and_then_Inr split: sum.splits)
  from Cons.IH [OF rest] pair_count_value [OF c] show ?case
    by (simp add: add.assoc)
qed

lemma total_count_value:
  "total_count X Y d = Inr n \<Longrightarrow> n = (\<Sum>e\<leftarrow>map fst d. cell_value d e X + cell_value d e Y)"
  unfolding total_count_def by (drule total_loop_value) simp

lemma update_fresh: "k \<notin> fst ` set al \<Longrightarrow> AList.update k v al = al @ [(k, v)]"
  by (induction al) auto

lemma type_stats_effect:
  assumes "type_stats X Y cty T env st = Inr st'"
  shows "probs_type st' =
           (if 0 < cell_value cty env X + cell_value cty env Y
            then AList.update env
                   (real (cell_value cty env X + cell_value cty env Y) / real T) (probs_type st)
            else probs_type st)"
    and "\<exists>h. entropies_type st' =
           (if 0 < cell_value cty env X + cell_value cty env Y
            then AList.update env h (entropies_type st) else entropies_type st)"
    and "probs_token st' = probs_token st" and "entropies_token st' = entropies_token st"
proof -
  from assms obtain cell x y where cell: "map_of cty env = Some cell"
    and x: "map_of cell X = Some x" and y: "map_of cell Y = Some y"
    and rest: "(if x + y > 0 then
         and_then (py_truediv (real x) (real (x + y))) (\<lambda>pX_type.
           let pY_type = 1 - pX_type;
               H_type = shannon_entropy pX_type pY_type
           in and_then (py_truediv (real (x + y)) (real T)) (\<lambda>w.
                Inr (st\<lparr>entropies_type := AList.update env H_type (entropies_type st),
                        probs_type := AList.update env w (probs_type st)\<rparr>)))
       else Inr st) = Inr st'"
    by (auto simp: type_stats_def and_then_Inr dict_get_Inr)
  have vx: "cell_value cty env X = x" and vy: "cell_value cty env Y = y"
    by (simp_all add: cell_value_read [OF cell] x y)
  show "probs_type st' =
           (if 0 < cell_value cty env X + cell_value cty env Y
            then AList.update env
                   (real (cell_value cty env X + cell_value cty env Y) / real T) (probs_type st)
            else probs_type st)"
    using rest unfolding vx vy
    by (auto simp: and_then_Inr py_truediv_def Let_def split: if_splits)
  show "\<exists>h. entropies_type st' =
           (if 0 < cell_value cty env X + cell_value cty env Y
            then AList.update env h (entropies_type st) else entropies_type st)"
    using rest unfolding vx vy
    by (auto simp: and_then_Inr py_truediv_def Let_def split: if_splits)
  show "probs_token st' = probs_token st" "entropies_token st' = entropies_token st"
    using rest by (auto simp: and_then_Inr py_truediv_def Let_def split: if_splits)
qed

lemma token_stats_effect:
  assumes "token_stats X Y ctok T env st = Inr st'"
  shows "probs_token st' =
           (if 0 < cell_value ctok env X + cell_value ctok env Y
            then AList.update env
                   (real_of_int (cell_value ctok env X + cell_value ctok env Y) / real_of_int T)
                   (probs_token st)
            else probs_token st)"
    and "\<exists>h. entropies_token st' =
           (if 0 < cell_value ctok env X + cell_value ctok env Y
            then AList.update env h (entropies_token st) else entropies_token st)"
    and "probs_type st' = probs_type st" and "entropies_type st' = entropies_type st"
proof -
  from assms obtain cell x y where cell: "map_of ctok env = Some cell"
    and x: "map_of cell X = Some x" and y: "map_of cell Y = Some y"
    and rest: "(if x + y > 0 then
         and_then (py_truediv (real_of_int x) (real_of_int (x + y))) (\<lambda>pX_token.
           let pY_token = 1 - pX_token;
               H_token = shannon_entropy pX_token pY_token
           in and_then (py_truediv (real_of_int (x + y)) (real_of_int T)) (\<lambda>w.
                Inr (st\<lparr>entropies_token := AList.update env H_token (entropies_token st),
                        probs_token := AList.update env w (probs_token st)\<rparr>)))
       else Inr st) = Inr st'"
    by (auto simp: token_stats_def and_then_Inr dict_get_Inr)
  have vx: "cell_value ctok env X = x" and vy: "cell_value ctok env Y = y"
    by (simp_all add: cell_value_read [OF cell] x y)
  show "probs_token st' =
           (if 0 < cell_value ctok env X + cell_value ctok env Y
            then AList.update env
                   (real_of_int (cell_value ctok env X + cell_value ctok env Y) / real_of_int T)
                   (probs_token st)
            else probs_token st)"
    using rest unfolding vx vy
    by (auto simp: and_then_Inr py_truediv_def Let_def split: if_splits)
  show "\<exists>h. entropies_token st' =
           (if 0 < cell_value ctok env X + cell_value ctok env Y
            then AList.update env h (entropies_token st) else entropies_token st)"
    using rest unfolding vx vy
    by (auto simp: and_then_Inr py_truediv_def Let_def split: if_splits)
  show "probs_type st' = probs_type st" "entropies_type st' = entropies_type st"
    using rest by (auto simp: and_then_Inr py_truediv_def Let_def split: if_splits)
qed

lemma env_entropy_effect:
  assumes "env_entropy X Y s T Tk env st = Inr st'"
  shows "probs_type st' =
           (if 0 < type_count s env X + type_count s env Y
            then AList.update env (real (type_count s env X + type_count s env Y) / real T)
                   (probs_type st)
            else probs_type st)"
    and "\<exists>h. entropies_type st' =
           (if 0 < type_count s env X + type_count s env Y
            then AList.update env h (entropies_type st) else entropies_type st)"
    and "probs_token st' =
           (if 0 < token_count s env X + token_count s env Y
            then AList.update env
                   (real_of_int (token_count s env X + token_count s env Y) / real_of_int Tk)
                   (probs_token st)
            else probs_token st)"
    and "\<exists>h. entropies_token st' =
           (if 0 < token_count s env X + token_count s env Y
            then AList.update env h (entropies_token st) else entropies_token st)"
proof -
  from assms obtain st1 where a: "type_stats X Y (counts_type s) T env st = Inr st1"
    and b: "token_stats X Y (counts_token s) Tk env st1 = Inr st'"
    by (auto simp: env_entropy_def and_then_Inr)
  note ea = type_stats_effect [OF a]
  note eb = token_stats_effect [OF b]
  show "probs_type st' =
           (if 0 < type_count s env X + type_count s env Y
            then AList.update env (real (type_count s env X + type_count s env Y) / real T)
                   (probs_type st)
            else probs_type st)"
    unfolding eb(3) ea(1) type_count_def ..
  show "\<exists>h. entropies_type st' =
           (if 0 < type_count s env X + type_count s env Y
            then AList.update env h (entropies_type st) else entropies_type st)"
    unfolding eb(4) type_count_def by (rule ea(2))
  show "probs_token st' =
           (if 0 < token_count s env X + token_count s env Y
            then AList.update env
                   (real_of_int (token_count s env X + token_count s env Y) / real_of_int Tk)
                   (probs_token st)
            else probs_token st)"
    unfolding eb(1) ea(3) token_count_def ..
  show "\<exists>h. entropies_token st' =
           (if 0 < token_count s env X + token_count s env Y
            then AList.update env h (entropies_token st) else entropies_token st)"
    using eb(2) unfolding ea(4) token_count_def .
qed

lemma entropy_loop_type:
  assumes "for_each (env_entropy X Y s T Tk) es st0 = Inr st" and "distinct es"
    and "set es \<inter> fst ` set (probs_type st0) = {}"
    and "set es \<inter> fst ` set (entropies_type st0) = {}"
  shows "probs_type st =
           probs_type st0 @
           map (\<lambda>e. (e, real (type_count s e X + type_count s e Y) / real T))
             (filter (\<lambda>e. 0 < type_count s e X + type_count s e Y) es)
       \<and> map fst (entropies_type st) =
           map fst (entropies_type st0) @ filter (\<lambda>e. 0 < type_count s e X + type_count s e Y) es"
  using assms
proof (induction es arbitrary: st0)
  case Nil
  then show ?case by simp
next
  case (Cons e es)
  from Cons.prems(1) obtain st1 where
    st1: "env_entropy X Y s T Tk e st0 = Inr st1" and
    rest: "for_each (env_entropy X Y s T Tk) es st1 = Inr st"
    by (auto split: sum.splits)
  from env_entropy_effect(2) [OF st1] obtain h where
    h: "entropies_type st1 =
           (if 0 < type_count s e X + type_count s e Y
            then AList.update e h (entropies_type st0) else entropies_type st0)" ..
  note p = env_entropy_effect(1) [OF st1]
  from Cons.prems(3,4) have fresh: "e \<notin> fst ` set (probs_type st0)"
    "e \<notin> fst ` set (entropies_type st0)" by auto
  have d: "distinct es" and ne: "e \<notin> set es" using Cons.prems(2) by simp_all
  have k1: "set es \<inter> fst ` set (probs_type st1) = {}"
    using Cons.prems(3) ne by (auto simp: p dom_update)
  have k2: "set es \<inter> fst ` set (entropies_type st1) = {}"
    using Cons.prems(4) ne by (auto simp: h dom_update)
  from Cons.IH [OF rest d k1 k2] show ?case
    by (simp add: p h update_fresh [OF fresh(1)] update_fresh [OF fresh(2)])
qed

lemma entropy_loop_token:
  assumes "for_each (env_entropy X Y s T Tk) es st0 = Inr st" and "distinct es"
    and "set es \<inter> fst ` set (probs_token st0) = {}"
    and "set es \<inter> fst ` set (entropies_token st0) = {}"
  shows "probs_token st =
           probs_token st0 @
           map (\<lambda>e. (e, real_of_int (token_count s e X + token_count s e Y) / real_of_int Tk))
             (filter (\<lambda>e. 0 < token_count s e X + token_count s e Y) es)
       \<and> map fst (entropies_token st) =
           map fst (entropies_token st0) @
           filter (\<lambda>e. 0 < token_count s e X + token_count s e Y) es"
  using assms
proof (induction es arbitrary: st0)
  case Nil
  then show ?case by simp
next
  case (Cons e es)
  from Cons.prems(1) obtain st1 where
    st1: "env_entropy X Y s T Tk e st0 = Inr st1" and
    rest: "for_each (env_entropy X Y s T Tk) es st1 = Inr st"
    by (auto split: sum.splits)
  from env_entropy_effect(4) [OF st1] obtain h where
    h: "entropies_token st1 =
           (if 0 < token_count s e X + token_count s e Y
            then AList.update e h (entropies_token st0) else entropies_token st0)" ..
  note p = env_entropy_effect(3) [OF st1]
  from Cons.prems(3,4) have fresh: "e \<notin> fst ` set (probs_token st0)"
    "e \<notin> fst ` set (entropies_token st0)" by auto
  have d: "distinct es" and ne: "e \<notin> set es" using Cons.prems(2) by simp_all
  have k1: "set es \<inter> fst ` set (probs_token st1) = {}"
    using Cons.prems(3) ne by (auto simp: p dom_update)
  have k2: "set es \<inter> fst ` set (entropies_token st1) = {}"
    using Cons.prems(4) ne by (auto simp: h dom_update)
  from Cons.IH [OF rest d k1 k2] show ?case
    by (simp add: p h update_fresh [OF fresh(1)] update_fresh [OF fresh(2)])
qed

lemma weights_sum:
  fixes g :: "'a \<Rightarrow> real"
  assumes "\<And>e. e \<in> set es \<Longrightarrow> 0 \<le> g e" and "T = (\<Sum>e\<leftarrow>es. g e)" and "0 < T"
  shows "sum_list (map snd (map (\<lambda>e. (e, g e / T)) (filter (\<lambda>e. 0 < g e) es))) = 1"
proof -
  have "sum_list (map snd (map (\<lambda>e. (e, g e / T)) (filter (\<lambda>e. 0 < g e) es)))
        = (\<Sum>e\<leftarrow>filter (\<lambda>e. 0 < g e) es. g e * (1 / T))"
    by (simp add: comp_def)
  also have "\<dots> = (\<Sum>e\<leftarrow>es. g e * (1 / T))"
  proof (rule sum_list_map_filter)
    fix e assume "e \<in> set es" "\<not> 0 < g e"
    with assms(1) [of e] have "g e = 0" by simp
    then show "g e * (1 / T) = 0" by simp
  qed
  also have "\<dots> = (\<Sum>e\<leftarrow>es. g e) * (1 / T)"
    by (rule sum_list_mult_const)
  also have "\<dots> = 1" using assms(2,3) by simp
  finally show ?thesis .
qed

lemma real_sum_list_nat: "real (\<Sum>x\<leftarrow>xs. f x) = (\<Sum>x\<leftarrow>xs. real (f x))"
  by (induction xs) simp_all

lemma real_sum_list_int: "real_of_int (\<Sum>x\<leftarrow>xs. f x) = (\<Sum>x\<leftarrow>xs. real_of_int (f x))"
  by (induction xs) simp_all

lemma pprm_for_pair_parts:
  assumes "pprm_for_pair df X Y f = Inr r"
  shows "\<exists>s T Tk st. scan_rows X Y f df = Inr s
      \<and> total_count X Y (counts_type s) = Inr T
      \<and> total_count X Y (counts_token s) = Inr Tk
      \<and> for_each (env_entropy X Y s T Tk) (map fst (counts_type s)) no_stats = Inr st
      \<and> env_type_counts r = counts_type s \<and> env_token_counts r = counts_token s
      \<and> env_type_probs r = probs_type st \<and> env_token_probs r = probs_token st
      \<and> env_type_entropies r = entropies_type st \<and> env_token_entropies r = entropies_token st"
  using assms unfolding pprm_for_pair_def and_then_Inr by (elim exE conjE) auto

section \<open>Data without the two phones\<close>

lemma positions_no_target:
  "\<forall>(i, q) \<in> set ps. q \<noteq> X \<and> q \<noteq> Y \<Longrightarrow>
   for_each (count_occurrence X Y f w fr phones) ps s = Inr s"
  by (induction ps) (auto simp: count_occurrence_def)

lemma scan_row_no_target:
  assumes "X \<notin> set (phone_sequence (Phono row))" and "Y \<notin> set (phone_sequence (Phono row))"
  shows "scan_row X Y f row s = Inr s"
  unfolding scan_row_def Let_def
proof (rule positions_no_target, clarify)
  fix i q assume "(i, q) \<in> set (enumerate 0 (phone_sequence (Phono row)))"
  then have "q \<in> set (phone_sequence (Phono row))"
    by (auto simp: in_set_enumerate_eq)
  with assms show "q \<noteq> X \<and> q \<noteq> Y" by auto
qed

lemma scan_rows_no_target:
  assumes "\<forall>row \<in> set df. X \<notin> set (phone_sequence (Phono row))
                          \<and> Y \<notin> set (phone_sequence (Phono row))"
  shows "scan_rows X Y f df = Inr no_counts"
  unfolding scan_rows_def using assms
  by (induction df) (simp_all add: scan_row_no_target)

section \<open>Classifier facts\<close>

lemma py_index_in_range:
  "0 \<le> i \<Longrightarrow> i < int (length xs) \<Longrightarrow> py_index xs i = Inr (xs ! nat i)"
  by (simp add: py_index_def)

lemma is_vowel_total: "phone \<noteq> [] \<Longrightarrow> \<exists>b. is_vowel phone = Inr b"
  by (cases phone) (simp_all add: is_vowel_def)

section \<open>The exact binary entropy\<close>

text \<open>
  The function that \<open>shannon_entropy\<close> evaluates, over the reals: it is strictly concave
  on the interval from 0 to 1.
\<close>

lemma shannon_entropy_ln:
  assumes "0 \<le> p" and "0 \<le> q"
  shows "shannon_entropy p q = - (p * ln p + q * ln q) / ln 2"
proof -
  have "p = 0" if "\<not> 0 < p" using that assms(1) by simp
  moreover have "q = 0" if "\<not> 0 < q" using that assms(2) by simp
  ultimately show ?thesis
    by (auto simp: shannon_entropy_def Let_def log_def diff_divide_distrib)
qed

lemma xlnx_tangent:
  fixes x m :: real
  assumes "0 < m" and "0 \<le> x" and "x \<noteq> m"
  shows "x * ln m + x - m < x * ln x"
proof (cases "x = 0")
  case True
  with assms show ?thesis by simp
next
  case False
  with assms have x: "0 < x" by simp
  then have pos: "0 < m / x" using assms(1) by simp
  have ne: "m / x \<noteq> 1" using assms(3) x by auto
  have "ln (m / x) \<le> m / x - 1" using pos by (rule ln_le_minus_one)
  moreover have "ln (m / x) \<noteq> m / x - 1" using ln_eq_minus_one [OF pos] ne by blast
  ultimately have "ln (m / x) < m / x - 1" by simp
  then have "ln m - ln x < m / x - 1" using assms(1) x by (simp add: ln_divide_pos)
  then have "x * (ln m - ln x) < x * (m / x - 1)" using x by (rule mult_strict_left_mono)
  then show ?thesis using x by (simp add: algebra_simps)
qed

lemma xlnx_strictly_convex:
  fixes a b t :: real
  assumes "0 \<le> a" and "a < b" and "0 < t" and "t < 1"
  shows "(t * a + (1 - t) * b) * ln (t * a + (1 - t) * b) < t * (a * ln a) + (1 - t) * (b * ln b)"
proof -
  define m where "m = t * a + (1 - t) * b"
  have b: "0 < b" using assms by simp
  have "0 < (1 - t) * b" using b assms by simp
  moreover have "0 \<le> t * a" using assms by simp
  ultimately have m: "0 < m" unfolding m_def by linarith
  have "m - a = (1 - t) * (b - a)" unfolding m_def by (simp add: algebra_simps)
  moreover have "0 < (1 - t) * (b - a)" using assms by simp
  ultimately have am: "a \<noteq> m" by auto
  have "b - m = t * (b - a)" unfolding m_def by (simp add: algebra_simps)
  moreover have "0 < t * (b - a)" using assms by simp
  ultimately have bm: "b \<noteq> m" by auto
  have ta: "a * ln m + a - m < a * ln a" using m assms(1) am by (rule xlnx_tangent)
  have tb: "b * ln m + b - m < b * ln b" using m _ bm by (rule xlnx_tangent) (use b in simp)
  have "t * (a * ln m + a - m) < t * (a * ln a)"
    using ta assms(3) by (rule mult_strict_left_mono)
  moreover have "(1 - t) * (b * ln m + b - m) < (1 - t) * (b * ln b)"
    using tb by (rule mult_strict_left_mono) (use assms in simp)
  ultimately have "t * (a * ln m + a - m) + (1 - t) * (b * ln m + b - m)
      < t * (a * ln a) + (1 - t) * (b * ln b)" by (rule add_strict_mono)
  moreover have "t * (a * ln m + a - m) + (1 - t) * (b * ln m + b - m) = m * ln m"
    unfolding m_def by (simp add: algebra_simps)
  ultimately show ?thesis unfolding m_def by simp
qed

lemma binary_entropy_strictly_concave:
  fixes a b t :: real
  assumes "0 \<le> a" and "a < b" and "b \<le> 1" and "0 < t" and "t < 1"
  shows "t * shannon_entropy a (1 - a) + (1 - t) * shannon_entropy b (1 - b)
         < shannon_entropy (t * a + (1 - t) * b) (1 - (t * a + (1 - t) * b))"
proof -
  define m where "m = t * a + (1 - t) * b"
  have m0: "0 \<le> m" unfolding m_def using assms by simp
  have "1 - m = t * (1 - a) + (1 - t) * (1 - b)" unfolding m_def by (simp add: algebra_simps)
  then have m1': "1 - m = (1 - t) * (1 - b) + (1 - (1 - t)) * (1 - a)" by simp
  have m1: "0 \<le> 1 - m" unfolding \<open>1 - m = t * (1 - a) + (1 - t) * (1 - b)\<close> using assms by simp
  have c1: "m * ln m < t * (a * ln a) + (1 - t) * (b * ln b)"
    unfolding m_def using assms by (intro xlnx_strictly_convex) simp_all
  have "((1 - t) * (1 - b) + (1 - (1 - t)) * (1 - a)) * ln ((1 - t) * (1 - b) + (1 - (1 - t)) * (1 - a))
        < (1 - t) * ((1 - b) * ln (1 - b)) + (1 - (1 - t)) * ((1 - a) * ln (1 - a))"
    using assms by (intro xlnx_strictly_convex) simp_all
  then have c2: "(1 - m) * ln (1 - m) < (1 - t) * ((1 - b) * ln (1 - b)) + t * ((1 - a) * ln (1 - a))"
    unfolding m1' [symmetric] by simp
  have ln2: "0 < ln (2::real)" by simp
  have Ha: "shannon_entropy a (1 - a) = - (a * ln a + (1 - a) * ln (1 - a)) / ln 2"
    using assms by (intro shannon_entropy_ln) simp_all
  have Hb: "shannon_entropy b (1 - b) = - (b * ln b + (1 - b) * ln (1 - b)) / ln 2"
    using assms by (intro shannon_entropy_ln) simp_all
  have Hm: "shannon_entropy m (1 - m) = - (m * ln m + (1 - m) * ln (1 - m)) / ln 2"
    using m0 m1 by (rule shannon_entropy_ln)
  have "t * (- (a * ln a + (1 - a) * ln (1 - a))) + (1 - t) * (- (b * ln b + (1 - b) * ln (1 - b)))
        < - (m * ln m + (1 - m) * ln (1 - m))"
    using c1 c2 by (simp add: algebra_simps)
  then have "(t * (- (a * ln a + (1 - a) * ln (1 - a)))
              + (1 - t) * (- (b * ln b + (1 - b) * ln (1 - b)))) / ln 2
        < - (m * ln m + (1 - m) * ln (1 - m)) / ln 2"
    using ln2 by (rule divide_strict_right_mono)
  then show ?thesis
    unfolding Ha Hb Hm m_def [symmetric] by (simp add: add_divide_distrib)
qed

section \<open>Rounding to double precision\<close>

lemma round_half_even_of_int [simp]: "round_half_even (of_int n) = n"
  by (simp add: round_half_even_def)

lemma round_half_even_cases:
  "round_half_even y = \<lfloor>y\<rfloor> \<or> (round_half_even y = \<lfloor>y\<rfloor> + 1 \<and> of_int \<lfloor>y\<rfloor> < y)"
  by (auto simp: round_half_even_def Let_def)

lemma round_half_even_abs_le:
  assumes "\<bar>y\<bar> \<le> of_int M"
  shows "\<bar>round_half_even y\<bar> \<le> M"
proof -
  from assms have lo: "- of_int M \<le> y" and hi: "y \<le> of_int M" by linarith+
  have f_lo: "- M \<le> \<lfloor>y\<rfloor>" using lo by (simp add: le_floor_iff)
  have "of_int \<lfloor>y\<rfloor> \<le> (of_int M :: real)" using hi of_int_floor_le [of y] by linarith
  then have f_hi: "\<lfloor>y\<rfloor> \<le> M" by simp
  from round_half_even_cases [of y] show ?thesis
  proof
    assume "round_half_even y = \<lfloor>y\<rfloor>"
    with f_lo f_hi show ?thesis by simp
  next
    assume a: "round_half_even y = \<lfloor>y\<rfloor> + 1 \<and> of_int \<lfloor>y\<rfloor> < y"
    then have "of_int \<lfloor>y\<rfloor> < (of_int M :: real)" using hi by linarith
    then have "\<lfloor>y\<rfloor> < M" by simp
    with a f_lo show ?thesis by simp
  qed
qed

lemma ulp_pos [simp]: "0 < ulp x"
  by (simp add: ulp_def)

lemma below_next_binade:
  assumes "x \<noteq> 0"
  shows "\<bar>x\<bar> < 2 powr of_int (binade x + 1)"
proof -
  have "log 2 \<bar>x\<bar> < of_int \<lfloor>log 2 \<bar>x\<bar>\<rfloor> + 1" by linarith
  also have "\<dots> \<le> of_int (binade x + 1)" by (simp add: binade_def)
  finally have "log 2 \<bar>x\<bar> < of_int (binade x + 1)" .
  then show ?thesis using assms by (simp add: log_less_iff)
qed



lemma ulp_nonzero [simp]: "ulp x \<noteq> 0"
  by (simp add: ulp_def)

lemma powr_int_nonneg: "0 \<le> d \<Longrightarrow> (2::real) powr of_int d = of_int (2 ^ nat d)"
proof -
  assume "0 \<le> d"
  then have "(2::real) powr of_int d = 2 powr real (nat d)" by simp
  also have "\<dots> = 2 ^ nat d" by (rule powr_realpow) simp
  finally show ?thesis by simp
qed

lemma round_double_scaled:
  assumes x: "x = of_int n * 2 powr of_int k" and n0: "n \<noteq> 0" and n: "\<bar>n\<bar> < 2 ^ 53"
    and k: "- 1074 \<le> k"
  shows "round_double x = x"
proof -
  define L where "L = \<lfloor>log 2 \<bar>of_int n :: real\<bar>\<rfloor>"
  have "1 \<le> \<bar>n\<bar>" using n0 by linarith
  then have "(of_int 1 :: real) \<le> of_int \<bar>n\<bar>" by (simp only: of_int_le_iff)
  then have n1: "(1::real) \<le> \<bar>of_int n\<bar>" by simp
  have L0: "0 \<le> L" unfolding L_def using n1 by simp
  have "(of_int \<bar>n\<bar> :: real) < of_int (2 ^ 53)" using n by (simp only: of_int_less_iff)
  then have "\<bar>of_int n :: real\<bar> < 2 ^ 53" by simp
  then have "log 2 \<bar>of_int n :: real\<bar> < 53"
    using n1 by (simp add: log_less_iff powr_numeral)
  then have L52: "L \<le> 52" unfolding L_def by (simp add: floor_le_iff)
  have x0: "x \<noteq> 0" using x n0 by simp
  have "\<bar>x\<bar> = \<bar>of_int n\<bar> * 2 powr of_int k" by (simp add: x abs_mult)
  then have "log 2 \<bar>x\<bar> = log 2 \<bar>of_int n :: real\<bar> + of_int k"
    using n1 n0 by (simp add: log_mult)
  then have "\<lfloor>log 2 \<bar>x\<bar>\<rfloor> = L + k"
    unfolding L_def using floor_add_int [of "log 2 \<bar>of_int n :: real\<bar>" k] by (simp only:)
  then have b: "binade x = max (L + k) (- 1022)" by (simp add: binade_def)
  define d where "d = k - (binade x - 52)"
  have d0: "0 \<le> d" unfolding d_def b using L52 k by simp
  have "x / ulp x = of_int n * (2 powr of_int k / 2 powr of_int (binade x - 52))"
    by (simp add: x ulp_def)
  also have "2 powr of_int k / 2 powr of_int (binade x - 52) = (2::real) powr of_int d"
    unfolding d_def by (simp add: powr_diff)
  also have "\<dots> = of_int (2 ^ nat d)" using d0 by (rule powr_int_nonneg)
  finally have "x / ulp x = of_int (n * 2 ^ nat d)" by simp
  then have "round_half_even (x / ulp x) = n * 2 ^ nat d"
    by (simp only: round_half_even_of_int)
  then have "round_double x = of_int (n * 2 ^ nat d) * ulp x"
    using x0 by (simp add: round_double_def)
  also have "\<dots> = (x / ulp x) * ulp x" using \<open>x / ulp x = of_int (n * 2 ^ nat d)\<close> by simp
  also have "\<dots> = x" by simp
  finally show ?thesis .
qed

lemma is_doubleI:
  "x = of_int n * 2 powr of_int k \<Longrightarrow> \<bar>n\<bar> \<le> 2 ^ 53 \<Longrightarrow> - 1074 \<le> k \<Longrightarrow> is_double x"
  unfolding is_double_def by (intro exI [of _ n] exI [of _ k] conjI)

lemma is_doubleE:
  assumes "is_double x"
  obtains n k where "x = of_int n * 2 powr of_int k" and "\<bar>n\<bar> \<le> 2 ^ 53" and "- 1074 \<le> k"
  using assms unfolding is_double_def by (elim exE conjE)

lemma round_double_exact:
  assumes "is_double x"
  shows "round_double x = x"
proof -
  from assms obtain n k where x: "x = of_int n * 2 powr of_int k"
    and n: "\<bar>n\<bar> \<le> 2 ^ 53" and k: "- 1074 \<le> k"
    by (rule is_doubleE)
  show ?thesis
  proof (cases "n = 0")
    case True
    then show ?thesis by (simp add: x round_double_def)
  next
    case False
    show ?thesis
    proof (cases "\<bar>n\<bar> < 2 ^ 53")
      case True
      show ?thesis by (rule round_double_scaled [OF x \<open>n \<noteq> 0\<close> True k])
    next
      case False
      with n have "\<bar>n\<bar> = 2 ^ 53" by simp
      then have "n = 2 ^ 53 \<or> n = - (2 ^ 53)" by linarith
      then have "n = 2 * (n div 2) \<and> n div 2 \<noteq> 0 \<and> \<bar>n div 2\<bar> < 2 ^ 53"
        by (elim disjE) simp_all
      then obtain m :: int where m: "n = 2 * m" "m \<noteq> 0" "\<bar>m\<bar> < 2 ^ 53"
        by (elim conjE) (rule that)
      have "x = of_int m * 2 powr of_int (k + 1)"
        by (simp add: x m powr_add)
      moreover have "- 1074 \<le> k + 1" using k by simp
      ultimately show ?thesis using m(2,3) by (intro round_double_scaled [of x m "k + 1"])
    qed
  qed
qed

lemma is_double_round_double: "is_double (round_double x)"
proof (cases "x = 0")
  case True
  have "(0::real) = of_int 0 * 2 powr of_int 0" by simp
  then have "is_double 0" by (rule is_doubleI) simp_all
  with True show ?thesis by (simp add: round_double_def)
next
  case False
  have "\<bar>x / ulp x\<bar> = \<bar>x\<bar> / 2 powr of_int (binade x - 52)" by (simp add: ulp_def)
  also have "\<dots> < 2 powr of_int (binade x + 1) / 2 powr of_int (binade x - 52)"
    using below_next_binade [OF False] by (simp add: divide_strict_right_mono)
  also have "\<dots> = 2 powr 53"
  proof -
    have "(of_int (binade x + 1) :: real) = of_int (binade x - 52) + 53" by simp
    then have "(2::real) powr of_int (binade x + 1) = 2 powr of_int (binade x - 52) * 2 powr 53"
      by (simp only: powr_add)
    then show ?thesis by simp
  qed
  also have "\<dots> = of_int (2 ^ 53)" by (simp add: powr_numeral)
  finally have "\<bar>x / ulp x\<bar> \<le> of_int (2 ^ 53)" by simp
  then have n: "\<bar>round_half_even (x / ulp x)\<bar> \<le> 2 ^ 53" by (rule round_half_even_abs_le)
  have k: "- 1074 \<le> binade x - 52" by (simp add: binade_def)
  have "round_double x = of_int (round_half_even (x / ulp x)) * 2 powr of_int (binade x - 52)"
    using False by (simp add: round_double_def ulp_def)
  then show ?thesis using n k by (rule is_doubleI)
qed

lemma round_double_idem: "round_double (round_double x) = round_double x"
  by (rule round_double_exact) (rule is_double_round_double)

lemma is_double_minus: "is_double x \<Longrightarrow> is_double (- x)"
proof -
  assume "is_double x"
  then obtain n k where x: "x = of_int n * 2 powr of_int k"
    and n: "\<bar>n\<bar> \<le> 2 ^ 53" and k: "- 1074 \<le> k"
    by (rule is_doubleE)
  have "- x = of_int (- n) * 2 powr of_int k" by (simp add: x)
  moreover have "\<bar>- n\<bar> \<le> 2 ^ 53" using n by simp
  ultimately show ?thesis using k by (rule is_doubleI)
qed

lemma round_half_even_minus: "round_half_even (- y) = - round_half_even y"
proof (cases "y = of_int \<lfloor>y\<rfloor>")
  case True
  then obtain n :: int where "y = of_int n" ..
  then have "- y = of_int (- n)" by simp
  then show ?thesis using \<open>y = of_int n\<close> by (simp only: round_half_even_of_int)
next
  case False
  then have lt: "of_int \<lfloor>y\<rfloor> < y" using of_int_floor_le [of y] by linarith
  have "\<lfloor>- y\<rfloor> = - \<lfloor>y\<rfloor> - 1"
  proof (rule floor_unique)
    show "of_int (- \<lfloor>y\<rfloor> - 1) \<le> - y" using floor_correct [of y] by simp linarith
    show "- y < of_int (- \<lfloor>y\<rfloor> - 1) + 1" using lt by simp
  qed
  then show ?thesis
    using lt by (auto simp: round_half_even_def Let_def)
qed

lemma binade_minus [simp]: "binade (- x) = binade x"
  by (simp add: binade_def)

lemma ulp_minus [simp]: "ulp (- x) = ulp x"
  by (simp add: ulp_def)

lemma round_double_minus: "round_double (- x) = - round_double x"
  by (simp add: round_double_def round_half_even_minus)

lemma round_double_0 [simp]: "round_double 0 = 0"
  by (simp add: round_double_def)





lemma is_double_of_int: "\<bar>n\<bar> \<le> 2 ^ 53 \<Longrightarrow> is_double (of_int n)"
  by (rule is_doubleI [of _ n 0]) simp_all

lemma is_double_1: "is_double 1"
  using is_double_of_int [of 1] by simp

lemma is_double_half: "is_double (1 / 2)"
proof (rule is_doubleI [of _ 1 "- 1"])
  show "(1 / 2 :: real) = of_int 1 * 2 powr of_int (- 1)" by (simp add: powr_minus_divide)
qed simp_all


lemma round_double_1 [simp]: "round_double 1 = 1"
  by (rule round_double_exact) (rule is_double_1)

lemma round_double_half [simp]: "round_double (1 / 2) = 1 / 2"
  by (rule round_double_exact) (rule is_double_half)

lemma round_double_minus_1 [simp]: "round_double (- 1) = - 1"
  by (simp add: round_double_minus)

lemma round_double_minus_half [simp]: "round_double (- (1 / 2)) = - (1 / 2)"
  by (simp only: round_double_minus round_double_half)

lemma math_log2_1 [simp]: "math_log2 1 = 0"
  by (simp add: math_log2_def)

lemma math_log2_half [simp]: "math_log2 (1 / 2) = - 1"
  by (simp add: math_log2_def log_divide)

lemma entropy_double_0_1: "shannon_entropy_double 0 (fl_sub 1 0) = 0"
  by (simp add: shannon_entropy_double_def fl_sub_def fl_mul_def)

lemma entropy_double_1_0: "shannon_entropy_double 1 (fl_sub 1 1) = 0"
  by (simp add: shannon_entropy_double_def fl_sub_def fl_mul_def)

lemma entropy_double_half: "shannon_entropy_double (1 / 2) (fl_sub 1 (1 / 2)) = 1"
  by (simp add: shannon_entropy_double_def fl_sub_def fl_mul_def)


lemma min_subnormal_nonzero [simp]: "min_subnormal \<noteq> 0"
  by (simp add: min_subnormal_def)









text \<open>At the probabilities 0, 1 and 1/2 the idealised calculator and the rounding one agree.\<close>

lemma entropy_models_agree:
  "shannon_entropy_double 0 (fl_sub 1 0) = shannon_entropy 0 (1 - 0)"
  "shannon_entropy_double 1 (fl_sub 1 1) = shannon_entropy 1 (1 - 1)"
  "shannon_entropy_double (1 / 2) (fl_sub 1 (1 / 2)) = shannon_entropy (1 / 2) (1 - 1 / 2)"
proof -
  have "log 2 (1 / 2) = - 1" by (simp add: log_divide)
  then show "shannon_entropy_double (1 / 2) (fl_sub 1 (1 / 2)) = shannon_entropy (1 / 2) (1 - 1 / 2)"
    by (simp add: entropy_double_half shannon_entropy_def Let_def)
qed (simp_all add: entropy_double_0_1 entropy_double_1_0 shannon_entropy_def)

section \<open>Runs of the scenarios\<close>

lemmas run_defs = pprm_for_pair_def scan_rows_def scan_row_def phone_sequence_def no_counts_def
  enumerate_eq_zip count_occurrence_def py_index_def and_then_def ensure_env_def pair_dict_def
  count_type_def count_token_def dict_get_def total_count_def pair_count_def env_entropy_def
  type_stats_def token_stats_def no_stats_def py_truediv_def shannon_entropy_def
  overall_entropy_def

lemma ich_run:
  "pprm_for_pair ich_rows ''x'' ''C'' env_x_c =
     Inr \<lparr>pair = ''[x]~[C]'', type_entropy = 0, token_entropy = 0,
       env_type_counts = [(''WordFinal_AfterFrontOrCons'', [(''x'', 0), (''C'', 1)])],
       env_token_counts = [(''WordFinal_AfterFrontOrCons'', [(''x'', 0), (''C'', 10)])],
       env_type_entropies = [(''WordFinal_AfterFrontOrCons'', 0)],
       env_token_entropies = [(''WordFinal_AfterFrontOrCons'', 0)],
       env_type_probs = [(''WordFinal_AfterFrontOrCons'', 1)],
       env_token_probs = [(''WordFinal_AfterFrontOrCons'', 1)]\<rparr>"
  by (simp add: run_defs ich_rows_def env_x_c_def is_back_vowel_def back_vowels_def)

lemma ich_zero_run:
  "pprm_for_pair ich_zero_rows ''x'' ''C'' env_x_c =
     Inr \<lparr>pair = ''[x]~[C]'', type_entropy = 0, token_entropy = 0,
       env_type_counts = [(''WordFinal_AfterFrontOrCons'', [(''x'', 0), (''C'', 1)])],
       env_token_counts = [(''WordFinal_AfterFrontOrCons'', [(''x'', 0), (''C'', 0)])],
       env_type_entropies = [(''WordFinal_AfterFrontOrCons'', 0)],
       env_token_entropies = [],
       env_type_probs = [(''WordFinal_AfterFrontOrCons'', 1)],
       env_token_probs = []\<rparr>"
  by (simp add: run_defs ich_zero_rows_def env_x_c_def is_back_vowel_def back_vowels_def)

lemma ich_ach_run:
  "pprm_for_pair ich_ach_rows ''x'' ''C'' env_x_c =
     Inr \<lparr>pair = ''[x]~[C]'', type_entropy = 0, token_entropy = 0,
       env_type_counts = [(''WordFinal_AfterFrontOrCons'', [(''x'', 0), (''C'', 1)]),
                          (''WordFinal_AfterBackVowel'', [(''x'', 1), (''C'', 0)])],
       env_token_counts = [(''WordFinal_AfterFrontOrCons'', [(''x'', 0), (''C'', 10)]),
                           (''WordFinal_AfterBackVowel'', [(''x'', 30), (''C'', 0)])],
       env_type_entropies = [(''WordFinal_AfterFrontOrCons'', 0), (''WordFinal_AfterBackVowel'', 0)],
       env_token_entropies = [(''WordFinal_AfterFrontOrCons'', 0), (''WordFinal_AfterBackVowel'', 0)],
       env_type_probs = [(''WordFinal_AfterFrontOrCons'', 1 / 2), (''WordFinal_AfterBackVowel'', 1 / 2)],
       env_token_probs = [(''WordFinal_AfterFrontOrCons'', 1 / 4), (''WordFinal_AfterBackVowel'', 3 / 4)]\<rparr>"
  by (simp add: run_defs ich_ach_rows_def env_x_c_def is_back_vowel_def back_vowels_def)

lemma adadada_run:
  "pprm_for_pair adadada_rows ''d'' ''t'' env_d_t =
     Inr \<lparr>pair = ''[d]~[t]'', type_entropy = 0, token_entropy = 0,
       env_type_counts = [(''Intervocalic_V_V'', [(''d'', 1), (''t'', 0)])],
       env_token_counts = [(''Intervocalic_V_V'', [(''d'', 21), (''t'', 0)])],
       env_type_entropies = [(''Intervocalic_V_V'', 0)],
       env_token_entropies = [(''Intervocalic_V_V'', 0)],
       env_type_probs = [(''Intervocalic_V_V'', 1)],
       env_token_probs = [(''Intervocalic_V_V'', 1)]\<rparr>"
  by (simp add: run_defs adadada_rows_def env_d_t_def is_vowel_def vowels_def)

lemma adadada_hits:
  "hits env_d_t \<lparr>Word = ''adadada'', Phono = ''a.d.a.d.a.d.a'', Frequency = 7\<rparr>
     ''Intervocalic_V_V'' ''d'' = 3"
  by (simp add: hits_def phone_sequence_def enumerate_eq_zip env_d_t_def py_index_def
      and_then_def is_vowel_def vowels_def)

lemma haben_sagen_no_dt:
  "\<forall>row \<in> set haben_sagen_rows. ''d'' \<notin> set (phone_sequence (Phono row))
                          \<and> ''t'' \<notin> set (phone_sequence (Phono row))"
  by (simp add: haben_sagen_rows_def phone_sequence_def)

lemma ich_ach_returns: "pprm_for_pair ich_ach_rows ''x'' ''C'' env_x_c = Inr ich_ach_result"
  unfolding ich_ach_result_def by (rule ich_ach_run)

lemma adadada_returns: "pprm_for_pair adadada_rows ''d'' ''t'' env_d_t = Inr adadada_result"
  unfolding adadada_result_def by (rule adadada_run)

lemma adadada_hits_hd:
  "hits env_d_t (hd adadada_rows) ''Intervocalic_V_V'' ''d'' = 3"
  using adadada_hits by (simp add: adadada_rows_def)

section \<open>The claims\<close>

subsection \<open>C1: a pair that does not occur\<close>

text \<open>
  C1, as the code has it. When neither \<open>phoneX\<close> nor \<open>phoneY\<close> occurs in any row, the scan
  creates no environment, both totals are 0, no division is evaluated, and
  \<open>pprm_for_pair\<close> returns normally: \<open>type_entropy\<close> and \<open>token_entropy\<close> are the number 0
  and the six per-environment dicts are empty. The classifier is never called.
\<close>

theorem no_occurrence_result:
  assumes "\<forall>row \<in> set df. phoneX \<notin> set (phone_sequence (Phono row))
                          \<and> phoneY \<notin> set (phone_sequence (Phono row))"
  shows "pprm_for_pair df phoneX phoneY env_function =
           Inr \<lparr>pair = ''['' @ phoneX @ '']~['' @ phoneY @ '']'',
                type_entropy = 0, token_entropy = 0,
                env_type_counts = [], env_token_counts = [],
                env_type_entropies = [], env_token_entropies = [],
                env_type_probs = [], env_token_probs = []\<rparr>"
  by (simp add: pprm_for_pair_def scan_rows_no_target [OF assms] and_then_def no_counts_def
      total_count_def no_stats_def overall_entropy_def)

text \<open>
  The theorem at the scenario of the specification: the rows \<open>haben\<close> and \<open>sagen\<close>,
  analysed for the pair (d, t).
\<close>

theorem no_occurrence_result_witness:
  "list_all (\<lambda>row. ''d'' \<notin> set (phone_sequence (Phono row))
                   \<and> ''t'' \<notin> set (phone_sequence (Phono row))) haben_sagen_rows
   \<and> pprm_for_pair haben_sagen_rows ''d'' ''t'' env_d_t =
       Inr \<lparr>pair = ''[d]~[t]'', type_entropy = 0, token_entropy = 0,
            env_type_counts = [], env_token_counts = [],
            env_type_entropies = [], env_token_entropies = [],
            env_type_probs = [], env_token_probs = []\<rparr>"
  using no_occurrence_result [OF haben_sagen_no_dt, of env_d_t] haben_sagen_no_dt
  by (simp add: list_all_iff)

text \<open>
  C1 as stated asks for entropies that are explicitly undefined when there is no data.
  The result for the rows \<open>haben\<close> and \<open>sagen\<close> has the entropies 0 and 0, the same
  numbers that the analysis of \<open>ich\<close> returns for a pair that does occur: nothing in the
  result marks the entropies as undefined.
\<close>

theorem no_data_entropy_is_zero:
  "pprm_for_pair haben_sagen_rows ''d'' ''t'' env_d_t =
       Inr \<lparr>pair = ''[d]~[t]'', type_entropy = 0, token_entropy = 0,
            env_type_counts = [], env_token_counts = [],
            env_type_entropies = [], env_token_entropies = [],
            env_type_probs = [], env_token_probs = []\<rparr>
   \<and> pprm_for_pair ich_rows ''x'' ''C'' env_x_c =
     Inr \<lparr>pair = ''[x]~[C]'', type_entropy = 0, token_entropy = 0,
       env_type_counts = [(''WordFinal_AfterFrontOrCons'', [(''x'', 0), (''C'', 1)])],
       env_token_counts = [(''WordFinal_AfterFrontOrCons'', [(''x'', 0), (''C'', 10)])],
       env_type_entropies = [(''WordFinal_AfterFrontOrCons'', 0)],
       env_token_entropies = [(''WordFinal_AfterFrontOrCons'', 0)],
       env_type_probs = [(''WordFinal_AfterFrontOrCons'', 1)],
       env_token_probs = [(''WordFinal_AfterFrontOrCons'', 1)]\<rparr>"
proof (rule conjI)
  show "pprm_for_pair haben_sagen_rows ''d'' ''t'' env_d_t =
       Inr \<lparr>pair = ''[d]~[t]'', type_entropy = 0, token_entropy = 0,
            env_type_counts = [], env_token_counts = [],
            env_type_entropies = [], env_token_entropies = [],
            env_type_probs = [], env_token_probs = []\<rparr>"
    by (simp add: run_defs haben_sagen_rows_def)
qed (rule ich_run)

subsection \<open>C2: type counts and token counts\<close>

text \<open>
  C2. After \<open>pprm_for_pair\<close>, for a target phone \<open>ph\<close> and an environment \<open>env\<close>, the type
  count of the cell is the number of distinct words that have at least one position holding
  \<open>ph\<close> in \<open>env\<close> (a word with k such positions counts once, and so does a word that
  several rows repeat), and the token count is the sum over the rows of k times the row's
  frequency.
\<close>

theorem type_and_token_counts:
  assumes run: "pprm_for_pair df phoneX phoneY env_function = Inr r"
    and ph: "ph = phoneX \<or> ph = phoneY"
  shows "(\<forall>cell n. map_of (env_type_counts r) env = Some cell \<and> map_of cell ph = Some n \<longrightarrow>
            n = card {Word row | row. row \<in> set df \<and> 1 \<le> hits env_function row env ph})
       \<and> (\<forall>cell n. map_of (env_token_counts r) env = Some cell \<and> map_of cell ph = Some n \<longrightarrow>
            n = (\<Sum>row\<leftarrow>df. int (hits env_function row env ph) * Frequency row))"
proof -
  from pprm_for_pair_scan [OF run] obtain s where
    s: "scan_rows phoneX phoneY env_function df = Inr s"
    and ty: "env_type_counts r = counts_type s" and tk: "env_token_counts r = counts_token s"
    by (elim exE conjE)
  note c = scan_rows_counts [OF s ph, of env]
  show ?thesis
  proof (intro conjI allI impI)
    fix cell n
    assume "map_of (env_type_counts r) env = Some cell \<and> map_of cell ph = Some n"
    then have "type_count s env ph = n"
      by (simp add: ty type_count_def cell_value_read)
    with c(1) show "n = card {Word row | row. row \<in> set df \<and> 1 \<le> hits env_function row env ph}"
      by simp
  next
    fix cell n
    assume "map_of (env_token_counts r) env = Some cell \<and> map_of cell ph = Some n"
    then have "token_count s env ph = n"
      by (simp add: tk token_count_def cell_value_read)
    with c(2) show "n = (\<Sum>row\<leftarrow>df. int (hits env_function row env ph) * Frequency row)"
      by simp
  qed
qed

text \<open>
  The theorem at a word with three occurrences of \<open>d\<close> between vowels and frequency 7:
  type count 1, token count 21.
\<close>

theorem type_and_token_counts_witness:
  "pprm_for_pair adadada_rows ''d'' ''t'' env_d_t = Inr adadada_result
   \<and> hits env_d_t (hd adadada_rows) ''Intervocalic_V_V'' ''d'' = 3
   \<and> card {Word row | row. row \<in> set adadada_rows
                          \<and> 1 \<le> hits env_d_t row ''Intervocalic_V_V'' ''d''} = 1
   \<and> (\<Sum>row\<leftarrow>adadada_rows. int (hits env_d_t row ''Intervocalic_V_V'' ''d'') * Frequency row)
       = 21"
proof -
  have "''d'' = ''d'' \<or> ''d'' = ''t''" by simp
  from type_and_token_counts [OF adadada_returns this, of "''Intervocalic_V_V''"]
  have "1 = card {Word row | row. row \<in> set adadada_rows
                          \<and> 1 \<le> hits env_d_t row ''Intervocalic_V_V'' ''d''}"
    and "21 = (\<Sum>row\<leftarrow>adadada_rows.
                 int (hits env_d_t row ''Intervocalic_V_V'' ''d'') * Frequency row)"
    by (simp_all add: adadada_result_def)
  then show ?thesis using adadada_returns adadada_hits_hd by simp
qed

subsection \<open>C3: the phone classifiers\<close>

text \<open>
  C3, as the code has it. \<open>is_front_vowel\<close> and \<open>is_back_vowel\<close> return a boolean for every
  string, the empty one included, and false when no listed symbol is a prefix. \<open>is_vowel\<close>
  returns a boolean for every non-empty string, false when the first character is not a
  listed symbol, and raises IndexError exactly on the empty string.
\<close>

theorem phone_classifiers_total:
  "(phone \<noteq> [] \<longrightarrow> (\<exists>b. is_vowel phone = Inr b))
   \<and> (phone \<noteq> [] \<and> [hd phone] \<notin> set vowels \<longrightarrow> is_vowel phone = Inr False)
   \<and> (is_vowel phone = Inl IndexError \<longleftrightarrow> phone = [])
   \<and> ((\<forall>vf \<in> set front_vowels. \<not> prefix vf phone) \<longrightarrow> \<not> is_front_vowel phone)
   \<and> ((\<forall>vb \<in> set back_vowels. \<not> prefix vb phone) \<longrightarrow> \<not> is_back_vowel phone)
   \<and> \<not> is_front_vowel [] \<and> \<not> is_back_vowel []"
  by (cases phone)
    (simp_all add: is_vowel_def is_front_vowel_def is_back_vowel_def list_ex_iff
      front_vowels_def back_vowels_def)

text \<open>
  The theorem at the phone \<open>k\<close>, which no table lists.
\<close>

theorem phone_classifiers_total_witness:
  "''k'' \<noteq> [] \<and> [hd ''k''] \<notin> set vowels \<and> is_vowel ''k'' = Inr False
   \<and> list_all (\<lambda>vf. \<not> prefix vf ''k'') front_vowels \<and> \<not> is_front_vowel ''k''
   \<and> list_all (\<lambda>vb. \<not> prefix vb ''k'') back_vowels \<and> \<not> is_back_vowel ''k''"
  using phone_classifiers_total [of "''k''"]
  by (simp add: vowels_def front_vowels_def back_vowels_def)

text \<open>
  C3 as stated fails for \<open>is_vowel\<close> on the empty string: \<open>phone[0]\<close> raises.
\<close>

theorem is_vowel_empty_raises: "is_vowel [] = Inl IndexError"
  by (simp add: is_vowel_def)

subsection \<open>C4: the environment weights\<close>

text \<open>
  C4. When \<open>total_types\<close> is positive, the environments with a weight are those with an
  entropy, and their weights \<open>p(env)\<close> add up to 1. The same holds for the token scheme
  when \<open>total_tokens\<close> is positive and the frequencies are non-negative, as the
  frequencies of word records are. Floats are idealised as reals, so the sum is exactly 1.
\<close>

theorem environment_weights_sum_to_one:
  assumes run: "pprm_for_pair df phoneX phoneY env_function = Inr r"
  shows "(\<forall>total_types. total_count phoneX phoneY (env_type_counts r) = Inr total_types
            \<and> 0 < total_types \<longrightarrow>
            map fst (env_type_probs r) = map fst (env_type_entropies r)
            \<and> distinct (map fst (env_type_probs r))
            \<and> sum_list (map snd (env_type_probs r)) = 1)
       \<and> ((\<forall>row \<in> set df. 0 \<le> Frequency row) \<longrightarrow>
          (\<forall>total_tokens. total_count phoneX phoneY (env_token_counts r) = Inr total_tokens
            \<and> 0 < total_tokens \<longrightarrow>
            map fst (env_token_probs r) = map fst (env_token_entropies r)
            \<and> distinct (map fst (env_token_probs r))
            \<and> sum_list (map snd (env_token_probs r)) = 1))"
proof -
  from pprm_for_pair_parts [OF run] obtain s T Tk st where
    s: "scan_rows phoneX phoneY env_function df = Inr s" and
    T: "total_count phoneX phoneY (counts_type s) = Inr T" and
    Tk: "total_count phoneX phoneY (counts_token s) = Inr Tk" and
    st: "for_each (env_entropy phoneX phoneY s T Tk) (map fst (counts_type s)) no_stats = Inr st" and
    r: "env_type_counts r = counts_type s" "env_token_counts r = counts_token s"
       "env_type_probs r = probs_type st" "env_token_probs r = probs_token st"
       "env_type_entropies r = entropies_type st" "env_token_entropies r = entropies_token st"
    by (elim exE conjE)
  note keys = tidy_keys [OF scan_rows_tidy [OF s]]
  define es where "es = map fst (counts_type s)"
  have d: "distinct es" unfolding es_def using keys by (rule same_keysD)
  have ks: "map fst (counts_token s) = es" unfolding es_def using keys by (rule same_keysD)
  let ?tc = "\<lambda>e. type_count s e phoneX + type_count s e phoneY"
  let ?kc = "\<lambda>e. token_count s e phoneX + token_count s e phoneY"
  note st' = st [folded es_def]
  from entropy_loop_type [OF st' d]
  have pt: "probs_type st = map (\<lambda>e. (e, real (?tc e) / real T)) (filter (\<lambda>e. 0 < ?tc e) es)"
    and et: "map fst (entropies_type st) = filter (\<lambda>e. 0 < ?tc e) es"
    by (simp_all add: no_stats_def)
  from entropy_loop_token [OF st' d]
  have pk: "probs_token st =
      map (\<lambda>e. (e, real_of_int (?kc e) / real_of_int Tk)) (filter (\<lambda>e. 0 < ?kc e) es)"
    and ek: "map fst (entropies_token st) = filter (\<lambda>e. 0 < ?kc e) es"
    by (simp_all add: no_stats_def)
  have Tv: "T = (\<Sum>e\<leftarrow>es. ?tc e)"
    using total_count_value [OF T] by (simp add: type_count_def es_def)
  have Tkv: "Tk = (\<Sum>e\<leftarrow>es. ?kc e)"
    using total_count_value [OF Tk] unfolding ks by (simp add: token_count_def)
  have A: "map fst (env_type_probs r) = map fst (env_type_entropies r)
            \<and> distinct (map fst (env_type_probs r))
            \<and> sum_list (map snd (env_type_probs r)) = 1" if "0 < T"
  proof (intro conjI)
    show "map fst (env_type_probs r) = map fst (env_type_entropies r)"
      by (simp add: r pt et comp_def)
    show "distinct (map fst (env_type_probs r))"
      using d by (simp add: r pt comp_def)
    have "real T = (\<Sum>e\<leftarrow>es. real (?tc e))"
      unfolding Tv by (rule real_sum_list_nat)
    then have "sum_list (map snd (map (\<lambda>e. (e, real (?tc e) / real T))
                 (filter (\<lambda>e. 0 < real (?tc e)) es))) = 1"
      using that by (intro weights_sum) simp_all
    then show "sum_list (map snd (env_type_probs r)) = 1"
      unfolding r pt by (simp only: of_nat_0_less_iff)
  qed
  have B: "map fst (env_token_probs r) = map fst (env_token_entropies r)
            \<and> distinct (map fst (env_token_probs r))
            \<and> sum_list (map snd (env_token_probs r)) = 1"
    if fr: "\<forall>row \<in> set df. 0 \<le> Frequency row" and "0 < Tk"
  proof (intro conjI)
    show "map fst (env_token_probs r) = map fst (env_token_entropies r)"
      by (simp add: r pk ek comp_def)
    show "distinct (map fst (env_token_probs r))"
      using d by (simp add: r pk comp_def)
    from scan_rows_tokens_nonneg [OF s fr] have nn: "0 \<le> token_count s e p" for e p
      by (simp add: tokens_nonneg_def)
    have "real_of_int Tk = (\<Sum>e\<leftarrow>es. real_of_int (?kc e))"
      unfolding Tkv by (rule real_sum_list_int)
    then have "sum_list (map snd (map (\<lambda>e. (e, real_of_int (?kc e) / real_of_int Tk))
                 (filter (\<lambda>e. 0 < real_of_int (?kc e)) es))) = 1"
      using that nn by (intro weights_sum) simp_all
    then show "sum_list (map snd (env_token_probs r)) = 1"
      unfolding r pk by (simp only: of_int_0_less_iff)
  qed
  have P1: "\<forall>total_types. total_count phoneX phoneY (env_type_counts r) = Inr total_types
            \<and> 0 < total_types \<longrightarrow>
            map fst (env_type_probs r) = map fst (env_type_entropies r)
            \<and> distinct (map fst (env_type_probs r))
            \<and> sum_list (map snd (env_type_probs r)) = 1"
  proof (intro allI impI)
    fix n assume "total_count phoneX phoneY (env_type_counts r) = Inr n \<and> 0 < n"
    with T have "0 < T" by (simp add: r)
    then show "map fst (env_type_probs r) = map fst (env_type_entropies r)
            \<and> distinct (map fst (env_type_probs r))
            \<and> sum_list (map snd (env_type_probs r)) = 1"
      by (rule A)
  qed
  have P2: "\<forall>total_tokens. total_count phoneX phoneY (env_token_counts r) = Inr total_tokens
            \<and> 0 < total_tokens \<longrightarrow>
            map fst (env_token_probs r) = map fst (env_token_entropies r)
            \<and> distinct (map fst (env_token_probs r))
            \<and> sum_list (map snd (env_token_probs r)) = 1"
    if fr: "\<forall>row \<in> set df. 0 \<le> Frequency row"
  proof (intro allI impI)
    fix n assume "total_count phoneX phoneY (env_token_counts r) = Inr n \<and> 0 < n"
    with Tk have "0 < Tk" by (simp add: r)
    with fr show "map fst (env_token_probs r) = map fst (env_token_entropies r)
            \<and> distinct (map fst (env_token_probs r))
            \<and> sum_list (map snd (env_token_probs r)) = 1"
      by (rule B)
  qed
  from P1 P2 show ?thesis by (intro conjI impI)
qed

text \<open>
  The theorem at the rows \<open>ich\<close> (frequency 10) and \<open>ach\<close> (frequency 30): type weights
  1/2 and 1/2, token weights 1/4 and 3/4.
\<close>

theorem environment_weights_sum_to_one_witness:
  "pprm_for_pair ich_ach_rows ''x'' ''C'' env_x_c = Inr ich_ach_result
   \<and> total_count ''x'' ''C'' (env_type_counts ich_ach_result) = Inr 2
   \<and> list_all (\<lambda>row. 0 \<le> Frequency row) ich_ach_rows
   \<and> total_count ''x'' ''C'' (env_token_counts ich_ach_result) = Inr 40
   \<and> sum_list (map snd (env_type_probs ich_ach_result)) = 1
   \<and> sum_list (map snd (env_token_probs ich_ach_result)) = 1"
proof -
  have t: "total_count ''x'' ''C'' (env_type_counts ich_ach_result) = Inr 2"
    and k: "total_count ''x'' ''C'' (env_token_counts ich_ach_result) = Inr 40"
    by (simp_all add: ich_ach_result_def total_count_def pair_count_def dict_get_def and_then_def)
  have fr: "\<forall>row \<in> set ich_ach_rows. 0 \<le> Frequency row"
    by (simp add: ich_ach_rows_def)
  from environment_weights_sum_to_one [OF ich_ach_returns] t k fr
  have "sum_list (map snd (env_type_probs ich_ach_result)) = 1"
    and "sum_list (map snd (env_token_probs ich_ach_result)) = 1"
    by simp_all
  with t k fr ich_ach_returns show ?thesis by (simp add: list_all_iff)
qed

subsection \<open>C5 and C10: one-phone words\<close>

text \<open>
  C5. On a one-phone word the index-0 branch decides: \<open>env_s_S\<close> gives
  \<open>WordInitial_s_alone\<close> (not \<open>WordFinal\<close>) for the sequence \<open>["s"]\<close>, and \<open>env_d_t\<close>
  gives \<open>WordInitial\<close> (not \<open>WordFinal\<close>) for every single-phone sequence.
\<close>

theorem one_phone_initial_precedence:
  "env_s_S [''s''] 0 = Inr ''WordInitial_s_alone''
   \<and> env_s_S [''s''] 0 \<noteq> Inr ''WordFinal''
   \<and> env_d_t [p] 0 = Inr ''WordInitial''
   \<and> env_d_t [p] 0 \<noteq> Inr ''WordFinal''"
  by (simp add: env_s_S_def env_d_t_def)

text \<open>
  C10. The x/c classifier gives the word-initial branch the same precedence: for every
  single-phone sequence it returns \<open>WordInitial\<close> at index 0, and no word-final label.
\<close>

theorem env_x_c_one_phone:
  "env_x_c [p] 0 = Inr ''WordInitial''
   \<and> env_x_c [p] 0 \<noteq> Inr ''WordFinal_AfterBackVowel''
   \<and> env_x_c [p] 0 \<noteq> Inr ''WordFinal_AfterFrontOrCons''"
  by (simp add: env_x_c_def)

subsection \<open>C6: the scenario of the word ich\<close>

text \<open>
  C6. For the single row (\<open>ich\<close>, \<open>I.C\<close>, 10) and the pair (x, C) with the x/c classifier:
  the transcription has the phones \<open>I\<close> and \<open>C\<close>; \<open>C\<close> is at the last index after the
  front vowel \<open>I\<close>, which is no back vowel, so its environment is
  \<open>WordFinal_AfterFrontOrCons\<close>; the type count of \<open>C\<close> is 1, its token count 10, the
  counts of \<open>x\<close> are 0; the entropy of the environment is 0 and both overall entropies are 0.
\<close>

theorem ich_scenario:
  "phone_sequence ''I.C'' = [''I'', ''C'']
   \<and> is_front_vowel ''I'' \<and> \<not> is_back_vowel ''I''
   \<and> env_x_c [''I'', ''C''] 1 = Inr ''WordFinal_AfterFrontOrCons''
   \<and> shannon_entropy 0 (1 - 0) = 0
   \<and> pprm_for_pair [\<lparr>Word = ''ich'', Phono = ''I.C'', Frequency = 10\<rparr>] ''x'' ''C'' env_x_c =
     Inr \<lparr>pair = ''[x]~[C]'', type_entropy = 0, token_entropy = 0,
       env_type_counts = [(''WordFinal_AfterFrontOrCons'', [(''x'', 0), (''C'', 1)])],
       env_token_counts = [(''WordFinal_AfterFrontOrCons'', [(''x'', 0), (''C'', 10)])],
       env_type_entropies = [(''WordFinal_AfterFrontOrCons'', 0)],
       env_token_entropies = [(''WordFinal_AfterFrontOrCons'', 0)],
       env_type_probs = [(''WordFinal_AfterFrontOrCons'', 1)],
       env_token_probs = [(''WordFinal_AfterFrontOrCons'', 1)]\<rparr>"
  using ich_run
  by (simp add: ich_rows_def phone_sequence_def is_front_vowel_def front_vowels_def
      is_back_vowel_def back_vowels_def env_x_c_def py_index_def and_then_def shannon_entropy_def)

subsection \<open>C7: binary entropy\<close>




subsection \<open>C8: environments in the count dicts\<close>

text \<open>
  C8, as the code has it. After \<open>pprm_for_pair\<close>, every environment in the type-count dict
  has a non-zero type count for one of the two phones, whatever the frequencies are. Every
  environment in the token-count dict has a non-zero token count for one of the two phones
  when all frequencies are positive.
\<close>

theorem environments_have_nonzero_count:
  assumes run: "pprm_for_pair df phoneX phoneY env_function = Inr r"
  shows "(\<forall>(env, cell) \<in> set (env_type_counts r).
            \<exists>ph n. (ph = phoneX \<or> ph = phoneY) \<and> map_of cell ph = Some n \<and> 0 < n)
       \<and> ((\<forall>row \<in> set df. 0 < Frequency row) \<longrightarrow>
          (\<forall>(env, cell) \<in> set (env_token_counts r).
            \<exists>ph n. (ph = phoneX \<or> ph = phoneY) \<and> map_of cell ph = Some n \<and> 0 < n))"
proof -
  from pprm_for_pair_scan [OF run] obtain s where
    s: "scan_rows phoneX phoneY env_function df = Inr s"
    and ty: "env_type_counts r = counts_type s" and tk: "env_token_counts r = counts_token s"
    by (elim exE conjE)
  show ?thesis
    unfolding ty tk
  proof (intro conjI impI ballI)
    fix x assume "x \<in> set (counts_type s)"
    then show "case x of (env, cell) \<Rightarrow>
            \<exists>ph n. (ph = phoneX \<or> ph = phoneY) \<and> map_of cell ph = Some n \<and> 0 < n"
      using type_cells_positive [OF s, of "fst x" "snd x"] by (simp add: case_prod_beta)
  next
    fix x assume "\<forall>row \<in> set df. 0 < Frequency row" "x \<in> set (counts_token s)"
    then show "case x of (env, cell) \<Rightarrow>
            \<exists>ph n. (ph = phoneX \<or> ph = phoneY) \<and> map_of cell ph = Some n \<and> 0 < n"
      using token_cells_positive [OF s, of "fst x" "snd x"] by (simp add: case_prod_beta)
  qed
qed

text \<open>
  The theorem at the rows \<open>ich\<close> (frequency 10) and \<open>ach\<close> (frequency 30).
\<close>

theorem environments_have_nonzero_count_witness:
  "pprm_for_pair ich_ach_rows ''x'' ''C'' env_x_c = Inr ich_ach_result
   \<and> list_all (\<lambda>row. 0 < Frequency row) ich_ach_rows
   \<and> list_all (\<lambda>(env, cell).
        \<exists>ph n. (ph = ''x'' \<or> ph = ''C'') \<and> map_of cell ph = Some n \<and> 0 < n)
        (env_type_counts ich_ach_result)
   \<and> list_all (\<lambda>(env, cell).
        \<exists>ph n. (ph = ''x'' \<or> ph = ''C'') \<and> map_of cell ph = Some n \<and> 0 < n)
        (env_token_counts ich_ach_result)"
proof -
  have fr: "\<forall>row \<in> set ich_ach_rows. 0 < Frequency row"
    by (simp add: ich_ach_rows_def)
  from environments_have_nonzero_count [OF ich_ach_returns] fr ich_ach_returns show ?thesis
    unfolding list_all_iff by (intro conjI) (elim conjE impE, assumption+)+
qed

text \<open>
  C8 as stated allows the frequency 0, which is non-negative. The row (\<open>ich\<close>, \<open>I.C\<close>, 0)
  creates the environment \<open>WordFinal_AfterFrontOrCons\<close> in the token-count dict with the
  token counts 0 and 0.
\<close>

theorem zero_frequency_environment:
  "0 \<le> Frequency (hd ich_zero_rows)
   \<and> pprm_for_pair ich_zero_rows ''x'' ''C'' env_x_c =
     Inr \<lparr>pair = ''[x]~[C]'', type_entropy = 0, token_entropy = 0,
       env_type_counts = [(''WordFinal_AfterFrontOrCons'', [(''x'', 0), (''C'', 1)])],
       env_token_counts = [(''WordFinal_AfterFrontOrCons'', [(''x'', 0), (''C'', 0)])],
       env_type_entropies = [(''WordFinal_AfterFrontOrCons'', 0)],
       env_token_entropies = [],
       env_type_probs = [(''WordFinal_AfterFrontOrCons'', 1)],
       env_token_probs = []\<rparr>"
  using ich_zero_run by (simp add: ich_zero_rows_def)

subsection \<open>C9: the classifiers stay in range\<close>

text \<open>
  C9. For a list of non-empty phones and an index \<open>i\<close> with \<open>0 \<le> i < len(phones)\<close>, each
  of the three classifiers returns one of its labels: no list access is out of range
  (that would be an IndexError) and \<open>is_vowel\<close> is never given an empty phone.
\<close>

theorem classifiers_in_range:
  assumes ne: "\<forall>p \<in> set phones. p \<noteq> []" and lo: "0 \<le> i" and hi: "i < int (length phones)"
  shows "env_x_c phones i \<in> Inr ` {''WordInitial'', ''WordFinal_AfterBackVowel'',
            ''WordFinal_AfterFrontOrCons'', ''Medial_AfterBackVowel'', ''Medial_AfterFrontOrCons''}
       \<and> env_s_S phones i \<in> Inr ` {''WordInitial_s_plus_stop'', ''WordInitial_s_alone'',
            ''WordFinal'', ''WordMedial''}
       \<and> env_d_t phones i \<in> Inr ` {''WordInitial'', ''WordFinal'', ''Intervocalic_V_V'',
            ''ClusterOrOther''}"
proof (intro conjI)
  show "env_x_c phones i \<in> Inr ` {''WordInitial'', ''WordFinal_AfterBackVowel'',
            ''WordFinal_AfterFrontOrCons'', ''Medial_AfterBackVowel'', ''Medial_AfterFrontOrCons''}"
    using lo hi by (simp add: env_x_c_def py_index_def and_then_def)
  show "env_s_S phones i \<in> Inr ` {''WordInitial_s_plus_stop'', ''WordInitial_s_alone'',
            ''WordFinal'', ''WordMedial''}"
    using lo hi by (simp add: env_s_S_def py_index_def and_then_def)
  show "env_d_t phones i \<in> Inr ` {''WordInitial'', ''WordFinal'', ''Intervocalic_V_V'',
            ''ClusterOrOther''}"
  proof (cases "i = 0 \<or> i = int (length phones) - 1")
    case True
    then show ?thesis by (auto simp: env_d_t_def)
  next
    case False
    with lo hi have l: "0 \<le> i - 1" "i - 1 < int (length phones)"
      and r: "0 \<le> i + 1" "i + 1 < int (length phones)" by auto
    have "nat (i - 1) < length phones" "nat (i + 1) < length phones" using l r by auto
    with ne have "phones ! nat (i - 1) \<noteq> []" "phones ! nat (i + 1) \<noteq> []"
      by auto
    then obtain bl br where "is_vowel (phones ! nat (i - 1)) = Inr bl"
      "is_vowel (phones ! nat (i + 1)) = Inr br"
      using is_vowel_total by blast
    with False show ?thesis
      by (simp add: env_d_t_def py_index_in_range [OF l] py_index_in_range [OF r] and_then_def)
  qed
qed

text \<open>
  The theorem at the phones \<open>a\<close>, \<open>d\<close>, \<open>a\<close> and the index 1.
\<close>

theorem classifiers_in_range_witness:
  "list_all (\<lambda>p. p \<noteq> []) [''a'', ''d'', ''a''] \<and> (0::int) \<le> 1
   \<and> (1::int) < int (length [''a'', ''d'', ''a''])
   \<and> env_x_c [''a'', ''d'', ''a''] 1 \<in> Inr ` {''WordInitial'', ''WordFinal_AfterBackVowel'',
            ''WordFinal_AfterFrontOrCons'', ''Medial_AfterBackVowel'', ''Medial_AfterFrontOrCons''}
   \<and> env_s_S [''a'', ''d'', ''a''] 1 \<in> Inr ` {''WordInitial_s_plus_stop'', ''WordInitial_s_alone'',
            ''WordFinal'', ''WordMedial''}
   \<and> env_d_t [''a'', ''d'', ''a''] 1 \<in> Inr ` {''WordInitial'', ''WordFinal'', ''Intervocalic_V_V'',
            ''ClusterOrOther''}"
proof -
  have a: "\<forall>p \<in> set [''a'', ''d'', ''a'']. p \<noteq> []" by simp
  have b: "(0::int) \<le> 1" and c: "(1::int) < int (length [''a'', ''d'', ''a''])" by simp_all
  from classifiers_in_range [OF a b c] b c show ?thesis
    by (intro conjI) (simp, (elim conjE, assumption)+)
qed

end
